theory Spec2Isabelle
  imports
    Main
    "HOL-Library.AList"
    "HOL-Library.Multiset"
    "HOL-Library.Char_ord"
    "HOL-Library.List_Lexorder"
begin

section \<open>Data model (common/interfaces/quiz.interface.ts, users/interfaces/user.interface.ts)\<close>

text \<open>
  A JavaScript object used as a dictionary (\<open>ScoringMap\<close>, \<open>ScoreBreakdown\<close>, the
  \<open>maxContributions\<close> table) is an association list in property order: a read
  \<open>obj[k]\<close> is \<open>map_of obj k\<close> (\<open>None\<close> is \<open>undefined\<close>), an assignment
  \<open>obj[k] = v\<close> is \<open>AList.update k v obj\<close>, which replaces the value of an existing
  key in place and appends a new key at the end. \<open>Object.keys\<close>, \<open>Object.values\<close>
  and \<open>Object.entries\<close> are \<open>map fst\<close>, \<open>map snd\<close> and the list itself.
  Numbers are integers (\<open>int\<close>), as the catalog stores them; in the data model weights
  and points are non-negative, which \<open>nonNegativeCatalog\<close> states where a theorem
  depends on it. Keys are assumed to be neither integer-like
  (JavaScript enumerates such keys first) nor names inherited from \<open>Object.prototype\<close>.
\<close>

type_synonym ScoringMap = "(string \<times> int) list"

type_synonym ScoreBreakdown = "(string \<times> int) list"

record AnswerOption =
  option_id :: string
  option_text :: string
  scores :: ScoringMap

record Question =
  question_id :: string
  question_text :: string
  weight :: int
  options :: "AnswerOption list"
  question_order :: int

record UserAnswer =
  questionId :: string
  optionId :: string

record QuizResult =
  result_id :: string
  result_userId :: string
  result_topPersonality :: "string option"
  result_scores :: ScoreBreakdown
  result_answers :: "UserAnswer list"
  result_createdAt :: nat

record User =
  user_id :: string
  email :: string
  password :: string
  name :: string
  user_createdAt :: nat
  user_hasCompletedQuiz :: bool
  quizToken :: "string option"

record SubmitQuizDto =
  answers :: "UserAnswer list"

record SubmitQuizResponse =
  token :: string
  topPersonality :: "string option"
  response_scores :: ScoreBreakdown

text \<open>
  The exceptions of the service, with their messages. \<open>ValidationFailed\<close> is the
  \<open>BadRequestException\<close> that the global \<open>ValidationPipe\<close> raises, whose message
  is the list of violated constraints; \<open>StoreError\<close> is a rejection by Firestore.
\<close>

datatype error =
  NotFoundException string
  | BadRequestException string
  | ForbiddenException string
  | ValidationFailed "string list"
  | StoreError string

type_synonym QuestionMap = "string \<rightharpoonup> Question"

text \<open>\<open>new Map(questions.map((q) => [q.id, q]))\<close>: a later entry replaces an earlier one.\<close>

definition questionMapOf :: "Question list \<Rightarrow> QuestionMap" where
  "questionMapOf questions = fold (\<lambda>q m. m(question_id q \<mapsto> q)) questions Map.empty"

section \<open>QuizService.validateAnswers\<close>

fun validateLoop :: "QuestionMap \<Rightarrow> string set \<Rightarrow> UserAnswer list \<Rightarrow> error + unit" where
  "validateLoop questionMap answeredQuestions [] = Inr ()"
| "validateLoop questionMap answeredQuestions (answer # rest) =
     (if questionId answer \<in> answeredQuestions
      then Inl (BadRequestException (''Duplicate answer for question: '' @ questionId answer))
      else (case questionMap (questionId answer) of
              None \<Rightarrow> Inl (BadRequestException (''Invalid question ID: '' @ questionId answer))
            | Some question \<Rightarrow>
                (case find (\<lambda>opt. option_id opt = optionId answer) (options question) of
                   None \<Rightarrow> Inl (BadRequestException
                     (''Invalid option ID: '' @ optionId answer @ '' for question: ''
                        @ questionId answer))
                 | Some opt \<Rightarrow>
                     validateLoop questionMap (insert (questionId answer) answeredQuestions) rest)))"

definition validateAnswers :: "UserAnswer list \<Rightarrow> QuestionMap \<Rightarrow> error + unit" where
  "validateAnswers as questionMap = validateLoop questionMap {} as"

section \<open>QuizService.calculateScores\<close>

text \<open>
  The body of the inner loop: \<open>if (!scores[id]) scores[id] = 0\<close> (an absent entry and a
  zero entry are both falsy), then \<open>scores[id] += question.weight * points\<close>.
\<close>

definition addPoints :: "int \<Rightarrow> string \<times> int \<Rightarrow> ScoreBreakdown \<Rightarrow> ScoreBreakdown" where
  "addPoints w entry sc =
     (case entry of (personalityId, points) \<Rightarrow>
        let sc0 = (if map_of sc personalityId = None \<or> map_of sc personalityId = Some 0
                   then AList.update personalityId 0 sc else sc)
        in (case map_of sc0 personalityId of
              None \<Rightarrow> sc0
            | Some cur \<Rightarrow> AList.update personalityId (cur + w * points) sc0))"

definition scoreAnswer :: "QuestionMap \<Rightarrow> UserAnswer \<Rightarrow> ScoreBreakdown \<Rightarrow> ScoreBreakdown" where
  "scoreAnswer questionMap answer sc =
     (case questionMap (questionId answer) of
        None \<Rightarrow> sc
      | Some question \<Rightarrow>
          (case find (\<lambda>opt. option_id opt = optionId answer) (options question) of
             None \<Rightarrow> sc
           | Some opt \<Rightarrow> fold (addPoints (weight question)) (scores opt) sc))"

definition calculateScores :: "UserAnswer list \<Rightarrow> QuestionMap \<Rightarrow> ScoreBreakdown" where
  "calculateScores as questionMap = fold (scoreAnswer questionMap) as []"

section \<open>QuizService.resolveTopPersonality and calculateMaxContributions\<close>

text \<open>\<open>Math.max(...xs)\<close> is \<open>-Infinity\<close> on no arguments.\<close>

datatype jsnum = NegInfinity | Num int

fun Math_max :: "int list \<Rightarrow> jsnum" where
  "Math_max [] = NegInfinity"
| "Math_max (x # xs) = Num (fold max xs x)"

text \<open>\<open>obj[id] === m\<close> for a table of integers.\<close>

definition hasValue :: "(string \<times> int) list \<Rightarrow> jsnum \<Rightarrow> string \<Rightarrow> bool" where
  "hasValue obj m k = (case map_of obj k of None \<Rightarrow> False | Some v \<Rightarrow> Num v = m)"

text \<open>
  The innermost statement of \<open>calculateMaxContributions\<close>: a falsy
  \<open>option.scores[id]\<close> (absent or zero) leaves the table as it is.
\<close>

definition contribute ::
  "Question \<Rightarrow> AnswerOption \<Rightarrow> string \<Rightarrow> (string \<times> int) list \<Rightarrow> (string \<times> int) list" where
  "contribute question opt personalityId mc =
     (case map_of (scores opt) personalityId of
        None \<Rightarrow> mc
      | Some points \<Rightarrow>
          if points = 0 then mc
          else (case map_of mc personalityId of
                  None \<Rightarrow> mc
                | Some cur \<Rightarrow> AList.update personalityId (max cur (weight question * points)) mc))"

definition contributeAnswer ::
  "QuestionMap \<Rightarrow> string list \<Rightarrow> UserAnswer \<Rightarrow> (string \<times> int) list \<Rightarrow> (string \<times> int) list" where
  "contributeAnswer questionMap personalities answer mc =
     (case questionMap (questionId answer) of
        None \<Rightarrow> mc
      | Some question \<Rightarrow>
          (case find (\<lambda>opt. option_id opt = optionId answer) (options question) of
             None \<Rightarrow> mc
           | Some opt \<Rightarrow> fold (contribute question opt) personalities mc))"

definition calculateMaxContributions ::
  "string list \<Rightarrow> UserAnswer list \<Rightarrow> QuestionMap \<Rightarrow> (string \<times> int) list" where
  "calculateMaxContributions personalities as questionMap =
     fold (contributeAnswer questionMap personalities) as
       (fold (\<lambda>personalityId mc. AList.update personalityId 0 mc) personalities [])"

text \<open>
  \<open>winnersAfterTieBreak.sort()\<close> orders strings by code unit, the lexicographic order
  of \<open>string\<close>; element 0 of an empty array is \<open>undefined\<close>, here \<open>None\<close>.
\<close>

definition resolveTopPersonality ::
  "ScoreBreakdown \<Rightarrow> UserAnswer list \<Rightarrow> QuestionMap \<Rightarrow> string option" where
  "resolveTopPersonality sc as questionMap =
     (let maxScore = Math_max (map snd sc);
          topPersonalities = filter (hasValue sc maxScore) (map fst sc)
      in if length topPersonalities = 1 then Some (hd topPersonalities)
         else
           let maxContributions = calculateMaxContributions topPersonalities as questionMap;
               maxContribution = Math_max (map snd maxContributions);
               winnersAfterTieBreak = filter (hasValue maxContributions maxContribution) topPersonalities
           in (case sort winnersAfterTieBreak of [] \<Rightarrow> None | w # ws \<Rightarrow> Some w))"

section \<open>Persistent state and the collaborators of submitQuiz\<close>

text \<open>
  The Firestore collections the service touches: \<open>users\<close> by document id,
  \<open>questions\<close> as the query \<open>orderBy('order')\<close> returns it, \<open>results\<close> by token in
  insertion order (\<open>doc(id).set\<close> replaces a document with the same id). The store is
  taken to be reachable; it still refuses what the Firestore client refuses, an update of
  a missing document and a document with an undefined field. \<open>nanoid()\<close> and
  \<open>new Date()\<close> are inputs of a call.
\<close>

record State =
  users :: "string \<rightharpoonup> User"
  questions :: "Question list"
  results :: "(string \<times> QuizResult) list"

definition findById :: "string \<Rightarrow> State \<Rightarrow> User option" where
  "findById userId s = users s userId"

definition hasCompletedQuiz :: "string \<Rightarrow> State \<Rightarrow> error + bool" where
  "hasCompletedQuiz userId s =
     (case findById userId s of
        None \<Rightarrow> Inl (NotFoundException ''User not found'')
      | Some user \<Rightarrow> Inr (user_hasCompletedQuiz user))"

definition markQuizCompleted :: "string \<Rightarrow> string \<Rightarrow> State \<Rightarrow> error + State" where
  "markQuizCompleted userId tok s =
     (case users s userId of
        None \<Rightarrow> Inl (StoreError ''No document to update'')
      | Some user \<Rightarrow>
          Inr (s\<lparr>users := (users s)(userId \<mapsto>
                 user\<lparr>user_hasCompletedQuiz := True, quizToken := Some tok\<rparr>)\<rparr>))"

definition getQuestions :: "State \<Rightarrow> error + Question list" where
  "getQuestions s =
     (if questions s = [] then Inl (NotFoundException ''No questions found in database'')
      else Inr (questions s))"

text \<open>
  \<open>saveResult\<close> writes \<open>topPersonality: result.topPersonality\<close> with \<open>doc(id).set\<close>.
  \<open>firebase.service.ts\<close> obtains the client with \<open>admin.firestore()\<close> and does not
  enable \<open>ignoreUndefinedProperties\<close>, so the client throws on an undefined
  \<open>topPersonality\<close> and writes nothing. The other fields are always defined.
\<close>

definition undefinedTopPersonality :: error where
  "undefinedTopPersonality =
     StoreError ''Cannot use undefined as a Firestore value (found in field topPersonality)''"

definition saveResult :: "QuizResult \<Rightarrow> State \<Rightarrow> error + State" where
  "saveResult result s =
     (case result_topPersonality result of
        None \<Rightarrow> Inl undefinedTopPersonality
      | Some w \<Rightarrow> Inr (s\<lparr>results := AList.update (result_id result) result (results s)\<rparr>))"

section \<open>QuizService.submitQuiz\<close>

definition submitQuiz ::
  "SubmitQuizDto \<Rightarrow> string \<Rightarrow> string \<Rightarrow> nat \<Rightarrow> State \<Rightarrow> (error + SubmitQuizResponse) \<times> State" where
  "submitQuiz submitQuizDto userId tok now s =
     (case hasCompletedQuiz userId s of
        Inl e \<Rightarrow> (Inl e, s)
      | Inr hasCompleted \<Rightarrow>
          if hasCompleted
          then (Inl (ForbiddenException
                  ''You have already completed the quiz. Each user can only take the quiz once.''), s)
          else
            (case getQuestions s of
               Inl e \<Rightarrow> (Inl e, s)
             | Inr qs \<Rightarrow>
                 let questionMap = questionMapOf qs in
                 (case validateAnswers (answers submitQuizDto) questionMap of
                    Inl e \<Rightarrow> (Inl e, s)
                  | Inr u \<Rightarrow>
                      let sc = calculateScores (answers submitQuizDto) questionMap;
                          top = resolveTopPersonality sc (answers submitQuizDto) questionMap;
                          result = \<lparr>result_id = tok, result_userId = userId,
                                    result_topPersonality = top, result_scores = sc,
                                    result_answers = answers submitQuizDto,
                                    result_createdAt = now\<rparr>
                      in (case saveResult result s of
                            Inl e \<Rightarrow> (Inl e, s)
                          | Inr s1 \<Rightarrow>
                              (case markQuizCompleted userId tok s1 of
                                 Inl e \<Rightarrow> (Inl e, s1)
                               | Inr s2 \<Rightarrow>
                                   (Inr \<lparr>token = tok, topPersonality = top,
                                         response_scores = sc\<rparr>,
                                    s2))))))"

section \<open>The submit endpoint: ValidationPipe on SubmitQuizDto, then the service\<close>

fun showNat :: "nat \<Rightarrow> string" where
  "showNat n =
     (if n < 10 then [char_of (48 + n)]
      else showNat (n div 10) @ [char_of (48 + n mod 10)])"

declare showNat.simps [simp del]

text \<open>\<open>@IsNotEmpty()\<close> on the two fields of \<open>UserAnswerDto\<close>, for the answer at index \<open>i\<close>.\<close>

definition answerConstraints :: "nat \<Rightarrow> UserAnswer \<Rightarrow> string list" where
  "answerConstraints i answer =
     (if questionId answer = []
      then [''answers.'' @ showNat i @ ''.questionId should not be empty''] else [])
     @ (if optionId answer = []
        then [''answers.'' @ showNat i @ ''.optionId should not be empty''] else [])"

text \<open>\<open>@ArrayMinSize(1, { message: 'At least one answer is required' })\<close> and \<open>@ValidateNested\<close>.\<close>

definition dtoConstraints :: "SubmitQuizDto \<Rightarrow> string list" where
  "dtoConstraints dto =
     (if length (answers dto) < 1 then [''At least one answer is required''] else [])
     @ concat (map (\<lambda>(i, a). answerConstraints i a) (enumerate 0 (answers dto)))"

definition validationPipe :: "SubmitQuizDto \<Rightarrow> error + SubmitQuizDto" where
  "validationPipe dto =
     (case dtoConstraints dto of [] \<Rightarrow> Inr dto | m # ms \<Rightarrow> Inl (ValidationFailed (m # ms)))"

text \<open>\<open>QuizController.submitQuiz\<close>, for the user the JWT guard authenticated.\<close>

definition QuizController_submitQuiz ::
  "SubmitQuizDto \<Rightarrow> string \<Rightarrow> string \<Rightarrow> nat \<Rightarrow> State \<Rightarrow> (error + SubmitQuizResponse) \<times> State" where
  "QuizController_submitQuiz body userId tok now s =
     (case validationPipe body of
        Inl e \<Rightarrow> (Inl e, s)
      | Inr dto \<Rightarrow> submitQuiz dto userId tok now s)"

text \<open>
  A sequential execution: submissions processed one after the other, each with the user
  who submits, the body, and the token and time drawn for it.
\<close>

record Submission =
  sub_userId :: string
  sub_body :: SubmitQuizDto
  sub_token :: string
  sub_now :: nat

definition step :: "Submission \<Rightarrow> State \<Rightarrow> State" where
  "step c s = snd (submitQuiz (sub_body c) (sub_userId c) (sub_token c) (sub_now c) s)"

definition run :: "Submission list \<Rightarrow> State \<Rightarrow> State" where
  "run cs s = fold step cs s"

definition resultsOf :: "string \<Rightarrow> State \<Rightarrow> QuizResult list" where
  "resultsOf userId s = filter (\<lambda>r. result_userId r = userId) (map snd (results s))"

definition completed :: "string \<Rightarrow> State \<Rightarrow> bool" where
  "completed userId s = (case users s userId of None \<Rightarrow> False | Some u \<Rightarrow> user_hasCompletedQuiz u)"

section \<open>The specification's notions, for comparison with the code\<close>

text \<open>The question and option an answer resolves to, when both ids are known.\<close>

definition selectedOption :: "QuestionMap \<Rightarrow> UserAnswer \<Rightarrow> (Question \<times> AnswerOption) option" where
  "selectedOption questionMap answer =
     (case questionMap (questionId answer) of
        None \<Rightarrow> None
      | Some question \<Rightarrow>
          (case find (\<lambda>opt. option_id opt = optionId answer) (options question) of
             None \<Rightarrow> None
           | Some opt \<Rightarrow> Some (question, opt)))"

text \<open>
  What is wrong with one answer, given the question ids of the answers before it:
  a repeated question, an unknown question, an unknown option, in this order.
\<close>

definition spec_offence :: "QuestionMap \<Rightarrow> string set \<Rightarrow> UserAnswer \<Rightarrow> error option" where
  "spec_offence questionMap earlier answer =
     (if questionId answer \<in> earlier
      then Some (BadRequestException (''Duplicate answer for question: '' @ questionId answer))
      else if questionMap (questionId answer) = None
      then Some (BadRequestException (''Invalid question ID: '' @ questionId answer))
      else if selectedOption questionMap answer = None
      then Some (BadRequestException
             (''Invalid option ID: '' @ optionId answer @ '' for question: '' @ questionId answer))
      else None)"

text \<open>
  The weighted entries of one answer: \<open>(category, question.weight \<times> points)\<close> for every
  entry of the selected option's scoring map; and of a whole submission.
\<close>

definition awardedEntries :: "QuestionMap \<Rightarrow> UserAnswer \<Rightarrow> (string \<times> int) list" where
  "awardedEntries questionMap answer =
     (case selectedOption questionMap answer of
        None \<Rightarrow> []
      | Some (question, opt) \<Rightarrow> map (\<lambda>(c, points). (c, weight question * points)) (scores opt))"

definition spec_entries :: "QuestionMap \<Rightarrow> UserAnswer list \<Rightarrow> (string \<times> int) list" where
  "spec_entries questionMap as = concat (map (awardedEntries questionMap) as)"

definition entryTotal :: "(string \<times> int) list \<Rightarrow> string \<Rightarrow> int" where
  "entryTotal es c = sum_list (map snd (filter (\<lambda>e. fst e = c) es))"

definition spec_total :: "QuestionMap \<Rightarrow> UserAnswer list \<Rightarrow> string \<Rightarrow> int" where
  "spec_total questionMap as c = entryTotal (spec_entries questionMap as) c"

definition spec_categories :: "QuestionMap \<Rightarrow> UserAnswer list \<Rightarrow> string set" where
  "spec_categories questionMap as = fst ` set (spec_entries questionMap as)"

text \<open>
  The values \<open>question.weight \<times> option.scores[category]\<close> of a category over the
  answers whose selected option mentions it.
\<close>

fun contributions :: "QuestionMap \<Rightarrow> string \<Rightarrow> UserAnswer list \<Rightarrow> int list" where
  "contributions questionMap c [] = []"
| "contributions questionMap c (answer # rest) =
     (case selectedOption questionMap answer of
        None \<Rightarrow> contributions questionMap c rest
      | Some (question, opt) \<Rightarrow>
          (case map_of (scores opt) c of
             None \<Rightarrow> contributions questionMap c rest
           | Some points \<Rightarrow> (weight question * points) # contributions questionMap c rest))"

text \<open>
  The maximum single-question contribution in the specification's words: the largest of
  these values, 0 if the category appears in no selected option.
\<close>

definition spec_maxContribution :: "QuestionMap \<Rightarrow> UserAnswer list \<Rightarrow> string \<Rightarrow> int" where
  "spec_maxContribution questionMap as c =
     (case contributions questionMap c as of [] \<Rightarrow> 0 | x # xs \<Rightarrow> Max (set (x # xs)))"

text \<open>
  The three-level cascade, for a given measure of a category's contribution: the
  categories with the maximum total; if there is not exactly one, those of them with the
  maximum contribution; of these the lexicographically smallest.
\<close>

definition spec_contenders :: "ScoreBreakdown \<Rightarrow> string list" where
  "spec_contenders sc = filter (\<lambda>c. map_of sc c = Some (Max (snd ` set sc))) (map fst sc)"

definition spec_narrowed :: "(string \<Rightarrow> int) \<Rightarrow> string list \<Rightarrow> string list" where
  "spec_narrowed contribution cs =
     filter (\<lambda>c. contribution c = Max (contribution ` set cs)) cs"

definition spec_winner :: "(string \<Rightarrow> int) \<Rightarrow> ScoreBreakdown \<Rightarrow> string" where
  "spec_winner contribution sc =
     (let contenders = spec_contenders sc
      in if length contenders = 1 then hd contenders
         else Min (set (spec_narrowed contribution contenders)))"

text \<open>A catalog all of whose weights and points are non-negative.\<close>

definition nonNegativeCatalog :: "Question list \<Rightarrow> bool" where
  "nonNegativeCatalog qs =
     (\<forall>q\<in>set qs. 0 \<le> weight q \<and> (\<forall>opt\<in>set (options q). \<forall>e\<in>set (scores opt). 0 \<le> snd e))"

section \<open>Concrete catalogs and submissions\<close>

definition mkQuestion :: "string \<Rightarrow> int \<Rightarrow> AnswerOption list \<Rightarrow> Question" where
  "mkQuestion i w os =
     \<lparr>question_id = i, question_text = [], weight = w, options = os, question_order = 0\<rparr>"

definition mkOption :: "string \<Rightarrow> ScoringMap \<Rightarrow> AnswerOption" where
  "mkOption i sm = \<lparr>option_id = i, option_text = [], scores = sm\<rparr>"

definition mkAnswer :: "string \<Rightarrow> string \<Rightarrow> UserAnswer" where
  "mkAnswer q oid = \<lparr>questionId = q, optionId = oid\<rparr>"

text \<open>The scenario of the README: architect 18, leader 19.\<close>

definition readmeCatalog :: "Question list" where
  "readmeCatalog =
     [mkQuestion ''Q1'' 4 [mkOption ''A'' [(''architect'', 3), (''leader'', 1)]],
      mkQuestion ''Q2'' 2 [mkOption ''A'' [(''architect'', 3)]],
      mkQuestion ''Q3'' 5 [mkOption ''A'' [(''leader'', 3)]]]"

definition threeAnswers :: "UserAnswer list" where
  "threeAnswers = [mkAnswer ''Q1'' ''A'', mkAnswer ''Q2'' ''A'', mkAnswer ''Q3'' ''A'']"

text \<open>Equal totals of 12; alpha's largest contribution is 8, beta's is 6.\<close>

definition tieCatalog :: "Question list" where
  "tieCatalog =
     [mkQuestion ''Q1'' 2 [mkOption ''A'' [(''beta'', 3), (''alpha'', 4)]],
      mkQuestion ''Q2'' 2 [mkOption ''A'' [(''beta'', 3), (''alpha'', 2)]]]"

definition twoAnswers :: "UserAnswer list" where
  "twoAnswers = [mkAnswer ''Q1'' ''A'', mkAnswer ''Q2'' ''A'']"

text \<open>An option that names a category with 0 points, and one with an empty scoring map.\<close>

definition zeroCatalog :: "Question list" where
  "zeroCatalog = [mkQuestion ''Q1'' 1 [mkOption ''A'' [(''architect'', 0)]]]"

definition blankCatalog :: "Question list" where
  "blankCatalog = [mkQuestion ''Q1'' 1 [mkOption ''A'' []]]"

definition oneAnswer :: "UserAnswer list" where
  "oneAnswer = [mkAnswer ''Q1'' ''A'']"

definition mkUser :: "string \<Rightarrow> bool \<Rightarrow> User" where
  "mkUser i done =
     \<lparr>user_id = i, email = [], password = [], name = [], user_createdAt = 0,
      user_hasCompletedQuiz = done, quizToken = None\<rparr>"

definition freshState :: "Question list \<Rightarrow> State" where
  "freshState qs =
     \<lparr>users = [''u1'' \<mapsto> mkUser ''u1'' False, ''u2'' \<mapsto> mkUser ''u2'' False],
      questions = qs, results = []\<rparr>"

text \<open>
  The single-attempt invariant of the store: a user whose flag is not set owns no
  result, and nobody owns more than one.
\<close>

definition oneResultPerUser :: "State \<Rightarrow> bool" where
  "oneResultPerUser s =
     (\<forall>userId. (\<not> completed userId s \<longrightarrow> resultsOf userId s = [])
        \<and> length (resultsOf userId s) \<le> 1)"

definition alreadyCompleted :: error where
  "alreadyCompleted =
     ForbiddenException
       ''You have already completed the quiz. Each user can only take the quiz once.''"

definition submissionBy :: "string \<Rightarrow> string \<Rightarrow> UserAnswer list \<Rightarrow> Submission" where
  "submissionBy userId tok as =
     \<lparr>sub_userId = userId, sub_body = \<lparr>answers = as\<rparr>, sub_token = tok, sub_now = 0\<rparr>"

section \<open>Validation reports the first offending answer\<close>

lemma validateLoop_clean:
  "(\<forall>i<length as. spec_offence qm (S \<union> questionId ` set (take i as)) (as ! i) = None)
   \<Longrightarrow> validateLoop qm S as = Inr ()"
proof (induction as arbitrary: S)
  case Nil
  then show ?case by simp
next
  case (Cons a as)
  from Cons.prems have h0: "spec_offence qm S a = None" by force
  have rest: "\<forall>i<length as. spec_offence qm (insert (questionId a) S \<union> questionId ` set (take i as)) (as ! i) = None"
  proof (intro allI impI)
    fix i assume "i < length as"
    then have "spec_offence qm (S \<union> questionId ` set (take (Suc i) (a # as))) ((a # as) ! Suc i) = None"
      using Cons.prems by (metis length_Cons Suc_less_eq)
    then show "spec_offence qm (insert (questionId a) S \<union> questionId ` set (take i as)) (as ! i) = None"
      by (simp add: Un_commute insert_commute)
  qed
  from h0 show ?case
    using Cons.IH[OF rest]
    by (auto simp: spec_offence_def selectedOption_def split: if_splits option.splits)
qed

lemma validateLoop_first:
  "i < length as \<Longrightarrow> spec_offence qm (S \<union> questionId ` set (take i as)) (as ! i) = Some e
   \<Longrightarrow> (\<forall>j<i. spec_offence qm (S \<union> questionId ` set (take j as)) (as ! j) = None)
   \<Longrightarrow> validateLoop qm S as = Inl e"
proof (induction as arbitrary: S i)
  case Nil
  then show ?case by simp
next
  case (Cons a as)
  show ?case
  proof (cases i)
    case 0
    with Cons.prems(2) have "spec_offence qm S a = Some e" by simp
    then show ?thesis
      by (auto simp: spec_offence_def selectedOption_def split: if_splits option.splits)
  next
    case (Suc k)
    with Cons.prems have k: "k < length as" by simp
    from Cons.prems(3) Suc have h0: "spec_offence qm S a = None" by force
    have e: "spec_offence qm (insert (questionId a) S \<union> questionId ` set (take k as)) (as ! k) = Some e"
      using Cons.prems(2) Suc by (simp add: Un_commute insert_commute)
    have rest: "\<forall>j<k. spec_offence qm (insert (questionId a) S \<union> questionId ` set (take j as)) (as ! j) = None"
    proof (intro allI impI)
      fix j assume "j < k"
      then have "Suc j < i" using Suc by simp
      then have "spec_offence qm (S \<union> questionId ` set (take (Suc j) (a # as))) ((a # as) ! Suc j) = None"
        using Cons.prems(3) by blast
      then show "spec_offence qm (insert (questionId a) S \<union> questionId ` set (take j as)) (as ! j) = None"
        by (simp add: Un_commute insert_commute)
    qed
    from h0 show ?thesis
      using Cons.IH[OF k e rest]
      by (auto simp: spec_offence_def selectedOption_def split: if_splits option.splits)
  qed
qed

text \<open>
  Claim C7. \<open>validateAnswers\<close> scans the answers in submission order. If no answer
  offends (given the question ids of the answers before it), validation succeeds. If
  the answer at index \<open>i\<close> is the first that offends, validation fails with the error
  of that answer: the duplicate-answer message citing the question id when the id
  occurred before, otherwise the invalid-question message citing the id when the
  catalog has no such question, otherwise the invalid-option message citing both ids.
  The function returns a value and touches no state.
\<close>

theorem validateAnswers_first_offence:
  "((\<forall>i<length as. spec_offence qm (questionId ` set (take i as)) (as ! i) = None)
      \<longrightarrow> validateAnswers as qm = Inr ())
   \<and> (\<forall>i e. i < length as
         \<and> spec_offence qm (questionId ` set (take i as)) (as ! i) = Some e
         \<and> (\<forall>j<i. spec_offence qm (questionId ` set (take j as)) (as ! j) = None)
       \<longrightarrow> validateAnswers as qm = Inl e)"
proof (intro conjI allI impI)
  assume "\<forall>i<length as. spec_offence qm (questionId ` set (take i as)) (as ! i) = None"
  then show "validateAnswers as qm = Inr ()"
    unfolding validateAnswers_def using validateLoop_clean[of as qm "{}"] by simp
next
  fix i e
  assume h: "i < length as
    \<and> spec_offence qm (questionId ` set (take i as)) (as ! i) = Some e
    \<and> (\<forall>j<i. spec_offence qm (questionId ` set (take j as)) (as ! j) = None)"
  then show "validateAnswers as qm = Inl e"
    unfolding validateAnswers_def using validateLoop_first[of i as qm "{}" e] by simp
qed

theorem validateAnswers_first_offence_witness:
  "validateAnswers threeAnswers (questionMapOf readmeCatalog) = Inr ()
   \<and> validateAnswers (threeAnswers @ [mkAnswer ''Q1'' ''A'']) (questionMapOf readmeCatalog)
       = Inl (BadRequestException ''Duplicate answer for question: Q1'')"
proof -
  let ?qm = "questionMapOf readmeCatalog"
  let ?bad = "threeAnswers @ [mkAnswer ''Q1'' ''A'']"
  have ok: "\<forall>i<length threeAnswers.
      spec_offence ?qm (questionId ` set (take i threeAnswers)) (threeAnswers ! i) = None"
    by (simp add: threeAnswers_def readmeCatalog_def questionMapOf_def mkQuestion_def
        mkOption_def mkAnswer_def spec_offence_def selectedOption_def
        numeral_3_eq_3 less_Suc_eq)
  have bad: "3 < length ?bad
      \<and> spec_offence ?qm (questionId ` set (take 3 ?bad)) (?bad ! 3)
          = Some (BadRequestException ''Duplicate answer for question: Q1'')
      \<and> (\<forall>j<3. spec_offence ?qm (questionId ` set (take j ?bad)) (?bad ! j) = None)"
    by (simp add: threeAnswers_def readmeCatalog_def questionMapOf_def mkQuestion_def
        mkOption_def mkAnswer_def spec_offence_def selectedOption_def
        numeral_3_eq_3 less_Suc_eq)
  from validateAnswers_first_offence[of threeAnswers ?qm] ok
  have 1: "validateAnswers threeAnswers ?qm = Inr ()" by blast
  from validateAnswers_first_offence[of ?bad ?qm] bad
  have 2: "validateAnswers ?bad ?qm = Inl (BadRequestException ''Duplicate answer for question: Q1'')"
    by blast
  from 1 2 show ?thesis by simp
qed

section \<open>The breakdown is the sum of the weighted entries\<close>

lemma addPoints_weighted: "addPoints w (c, p) sc = addPoints 1 (c, w * p) sc"
  by (simp add: addPoints_def Let_def split: option.splits)

lemma map_of_addPoints:
  "map_of (addPoints 1 (c, v) sc) k =
     (if k = c then Some ((case map_of sc c of None \<Rightarrow> 0 | Some x \<Rightarrow> x) + v) else map_of sc k)"
  by (auto simp: addPoints_def Let_def update_conv' split: option.splits)

lemma keys_addPoints: "fst ` set (addPoints 1 (c, v) sc) = insert c (fst ` set sc)"
  by (auto simp: addPoints_def Let_def dom_update map_of_eq_None_iff split: option.splits)

lemma distinct_addPoints:
  "distinct (map fst sc) \<Longrightarrow> distinct (map fst (addPoints 1 (c, v) sc))"
  by (auto simp: addPoints_def Let_def distinct_update split: option.splits)

lemma entryTotal_Cons:
  "entryTotal ((c, v) # es) k = (if k = c then v + entryTotal es k else entryTotal es k)"
  by (auto simp: entryTotal_def)

lemma entryTotal_absent: "k \<notin> fst ` set es \<Longrightarrow> entryTotal es k = 0"
  by (induction es) (auto simp: entryTotal_def)

lemma entryTotal_append: "entryTotal (xs @ ys) k = entryTotal xs k + entryTotal ys k"
  by (simp add: entryTotal_def)

lemma map_of_fold_addPoints:
  "map_of (fold (addPoints 1) es sc) k =
     (if k \<in> fst ` set es
      then Some ((case map_of sc k of None \<Rightarrow> 0 | Some x \<Rightarrow> x) + entryTotal es k)
      else map_of sc k)"
proof (induction es arbitrary: sc)
  case Nil
  then show ?case by simp
next
  case (Cons e es)
  obtain c v where e: "e = (c, v)" by (cases e)
  show ?case
    using Cons.IH[of "addPoints 1 (c, v) sc"]
    by (auto simp: e map_of_addPoints entryTotal_Cons entryTotal_absent split: option.splits)
qed

lemma distinct_fold_addPoints:
  "distinct (map fst sc) \<Longrightarrow> distinct (map fst (fold (addPoints 1) es sc))"
proof (induction es arbitrary: sc)
  case Nil
  then show ?case by simp
next
  case (Cons e es)
  obtain c v where e: "e = (c, v)" by (cases e)
  from Cons show ?case by (simp add: e distinct_addPoints)
qed

lemma keys_fold_addPoints:
  "fst ` set (fold (addPoints 1) es sc) = fst ` set es \<union> fst ` set sc"
proof (induction es arbitrary: sc)
  case Nil
  then show ?case by simp
next
  case (Cons e es)
  obtain c v where e: "e = (c, v)" by (cases e)
  show ?case using Cons.IH[of "addPoints 1 (c, v) sc"] by (auto simp: e keys_addPoints)
qed

lemma scoreAnswer_entries:
  "scoreAnswer qm a sc = fold (addPoints 1) (awardedEntries qm a) sc"
proof -
  have w: "\<And>w. addPoints 1 \<circ> (\<lambda>(c, p). (c, w * p)) = addPoints w"
    by (auto simp: fun_eq_iff addPoints_weighted[symmetric])
  show ?thesis
    by (simp add: scoreAnswer_def awardedEntries_def selectedOption_def fold_map w
        split: option.splits)
qed

lemma fold_scoreAnswer_entries:
  "fold (scoreAnswer qm) as sc = fold (addPoints 1) (spec_entries qm as) sc"
  by (induction as arbitrary: sc) (simp_all add: spec_entries_def scoreAnswer_entries)

lemma calculateScores_entries:
  "calculateScores as qm = fold (addPoints 1) (spec_entries qm as) []"
  by (simp add: calculateScores_def fold_scoreAnswer_entries)

lemma map_of_calculateScores:
  "map_of (calculateScores as qm) c =
     (if c \<in> spec_categories qm as then Some (spec_total qm as c) else None)"
  by (simp add: calculateScores_entries map_of_fold_addPoints spec_categories_def spec_total_def)

lemma distinct_calculateScores: "distinct (map fst (calculateScores as qm))"
  by (simp add: calculateScores_entries distinct_fold_addPoints)

lemma keys_calculateScores: "fst ` set (calculateScores as qm) = spec_categories qm as"
  by (simp add: calculateScores_entries keys_fold_addPoints spec_categories_def)

lemma validateLoop_resolves:
  "validateLoop qm S as = Inr () \<Longrightarrow> a \<in> set as \<Longrightarrow> selectedOption qm a \<noteq> None"
proof (induction as arbitrary: S)
  case Nil
  then show ?case by simp
next
  case (Cons b bs)
  from Cons.prems(1) have hd: "selectedOption qm b \<noteq> None"
    and tl: "validateLoop qm (insert (questionId b) S) bs = Inr ()"
    by (auto simp: selectedOption_def split: if_splits option.splits)
  from Cons.prems(2) have "a = b \<or> a \<in> set bs" by simp
  then show ?case using hd Cons.IH[OF tl] by blast
qed

lemma validateLoop_distinct:
  "validateLoop qm S as = Inr () \<Longrightarrow>
     distinct (map questionId as) \<and> S \<inter> questionId ` set as = {}"
  by (induction as arbitrary: S) (auto split: if_splits option.splits)

text \<open>
  Claim C2. For every catalog and answer list, the breakdown returned by
  \<open>calculateScores\<close> has one entry for each category that occurs in the scoring map
  of a selected option (the entry is created, at 0, when the category is first seen),
  and the value of that entry is the sum of \<open>question.weight \<times> points\<close> over every
  such (category, points) entry of every answer, in integer arithmetic; no other
  category has an entry. In a validated answer list every answer resolves to its
  question and option, so the sum ranges over all submitted answers.
\<close>

theorem calculateScores_sum:
  "map_of (calculateScores as qm) c =
     (if c \<in> spec_categories qm as then Some (spec_total qm as c) else None)
   \<and> distinct (map fst (calculateScores as qm))
   \<and> (validateAnswers as qm = Inr () \<longrightarrow> (\<forall>a\<in>set as. selectedOption qm a \<noteq> None))"
  using map_of_calculateScores[of as qm c] distinct_calculateScores[of as qm]
    validateLoop_resolves[of qm "{}" as]
  by (auto simp: validateAnswers_def)

theorem calculateScores_sum_witness:
  "validateAnswers threeAnswers (questionMapOf readmeCatalog) = Inr ()
   \<and> map_of (calculateScores threeAnswers (questionMapOf readmeCatalog)) ''architect'' = Some 18
   \<and> map_of (calculateScores threeAnswers (questionMapOf readmeCatalog)) ''leader'' = Some 19
   \<and> map_of (calculateScores threeAnswers (questionMapOf readmeCatalog)) ''explorer'' = None"
proof -
  let ?qm = "questionMapOf readmeCatalog"
  have v: "validateAnswers threeAnswers ?qm = Inr ()"
    by (simp add: validateAnswers_def threeAnswers_def readmeCatalog_def questionMapOf_def
        mkQuestion_def mkOption_def mkAnswer_def)
  have e: "spec_entries ?qm threeAnswers
      = [(''architect'', 12), (''leader'', 4), (''architect'', 6), (''leader'', 15)]"
    by (simp add: spec_entries_def awardedEntries_def selectedOption_def threeAnswers_def
        readmeCatalog_def questionMapOf_def mkQuestion_def mkOption_def mkAnswer_def)
  have a: "map_of (calculateScores threeAnswers ?qm) ''architect'' = Some 18"
    using calculateScores_sum[of threeAnswers ?qm "''architect''"]
    by (simp add: spec_categories_def spec_total_def entryTotal_def e)
  have l: "map_of (calculateScores threeAnswers ?qm) ''leader'' = Some 19"
    using calculateScores_sum[of threeAnswers ?qm "''leader''"]
    by (simp add: spec_categories_def spec_total_def entryTotal_def e)
  have x: "map_of (calculateScores threeAnswers ?qm) ''explorer'' = None"
    using calculateScores_sum[of threeAnswers ?qm "''explorer''"]
    by (simp add: spec_categories_def spec_total_def entryTotal_def e)
  from v a l x show ?thesis by simp
qed

section \<open>The breakdown does not depend on the order of the answers\<close>

lemma entryTotal_concat:
  "entryTotal (concat xss) k = sum_list (map (\<lambda>xs. entryTotal xs k) xss)"
  by (induction xss) (simp_all add: entryTotal_append, simp add: entryTotal_def)

lemma spec_total_sum_mset:
  "spec_total qm as c = sum_mset (image_mset (\<lambda>a. entryTotal (awardedEntries qm a) c) (mset as))"
proof -
  have "spec_total qm as c = sum_list (map (\<lambda>a. entryTotal (awardedEntries qm a) c) as)"
    by (simp add: spec_total_def spec_entries_def entryTotal_concat comp_def)
  also have "\<dots> = sum_mset (mset (map (\<lambda>a. entryTotal (awardedEntries qm a) c) as))"
    by (simp only: sum_mset_sum_list)
  finally show ?thesis by simp
qed

lemma spec_categories_set:
  "spec_categories qm as = (\<Union>a\<in>set as. fst ` set (awardedEntries qm a))"
  by (auto simp: spec_categories_def spec_entries_def)

lemma map_of_calculateScores_mset:
  assumes "mset as1 = mset as2"
  shows "map_of (calculateScores as1 qm) = map_of (calculateScores as2 qm)"
proof
  fix c
  from assms have s: "set as1 = set as2" by (rule mset_eq_setD)
  have cats: "spec_categories qm as1 = spec_categories qm as2"
    by (simp add: spec_categories_set s)
  have tot: "spec_total qm as1 c = spec_total qm as2 c"
    by (simp add: spec_total_sum_mset assms)
  show "map_of (calculateScores as1 qm) c = map_of (calculateScores as2 qm) c"
    by (simp add: map_of_calculateScores cats tot)
qed

text \<open>
  Claim C5. For every catalog and every two answer lists that are permutations of each
  other, \<open>calculateScores\<close> yields the same breakdown: the same categories, each with
  the same total (the same lookup function and the same set of entries).
\<close>

theorem calculateScores_permutation:
  assumes "mset as1 = mset as2"
  shows "map_of (calculateScores as1 qm) = map_of (calculateScores as2 qm)
         \<and> set (calculateScores as1 qm) = set (calculateScores as2 qm)"
proof -
  have m: "map_of (calculateScores as1 qm) = map_of (calculateScores as2 qm)"
    using assms by (rule map_of_calculateScores_mset)
  then have "set (calculateScores as1 qm) = set (calculateScores as2 qm)"
    using map_of_inject_set[OF distinct_calculateScores distinct_calculateScores] by blast
  with m show ?thesis by simp
qed

theorem calculateScores_permutation_witness:
  "mset threeAnswers = mset (rev threeAnswers)
   \<and> threeAnswers \<noteq> rev threeAnswers
   \<and> set (calculateScores threeAnswers (questionMapOf readmeCatalog))
       = set (calculateScores (rev threeAnswers) (questionMapOf readmeCatalog))"
proof -
  have p: "mset threeAnswers = mset (rev threeAnswers)" by simp
  have d: "threeAnswers \<noteq> rev threeAnswers"
    by (simp add: threeAnswers_def mkAnswer_def)
  from calculateScores_permutation[OF p, of "questionMapOf readmeCatalog"] p d
  show ?thesis by simp
qed

section \<open>Which entries a breakdown has, and when they are positive\<close>

lemma fold_upd_member:
  "fold (\<lambda>q m. m(question_id q \<mapsto> q)) qs m k = Some q \<Longrightarrow> q \<in> set qs \<or> m k = Some q"
proof (induction qs arbitrary: m)
  case Nil
  then show ?case by simp
next
  case (Cons x xs)
  from Cons.prems have "fold (\<lambda>q m. m(question_id q \<mapsto> q)) xs (m(question_id x \<mapsto> x)) k = Some q"
    by (simp only: fold.simps o_apply)
  from Cons.IH[OF this] show ?case by (auto split: if_splits)
qed

lemma questionMapOf_member: "questionMapOf qs k = Some q \<Longrightarrow> q \<in> set qs"
  using fold_upd_member[of qs Map.empty k q] by (simp add: questionMapOf_def)

lemma selectedOption_member:
  "selectedOption (questionMapOf qs) a = Some (q, opt) \<Longrightarrow> q \<in> set qs \<and> opt \<in> set (options q)"
  by (auto simp: selectedOption_def find_Some_iff split: option.splits
      dest: questionMapOf_member)

lemma spec_entries_nonneg:
  assumes "nonNegativeCatalog qs" and "e \<in> set (spec_entries (questionMapOf qs) as)"
  shows "0 \<le> snd e"
proof -
  from assms(2) obtain a where "a \<in> set as" and e: "e \<in> set (awardedEntries (questionMapOf qs) a)"
    by (auto simp: spec_entries_def)
  from e obtain q opt where sel: "selectedOption (questionMapOf qs) a = Some (q, opt)"
    by (cases "selectedOption (questionMapOf qs) a") (auto simp: awardedEntries_def)
  with e have e': "e \<in> set (map (\<lambda>(c, points). (c, weight q * points)) (scores opt))"
    by (simp add: awardedEntries_def)
  from e' obtain c p where cp: "(c, p) \<in> set (scores opt)" and ev: "e = (c, weight q * p)"
    by auto
  from selectedOption_member[OF sel] assms(1) cp have "0 \<le> weight q" and "0 \<le> p"
    by (force simp: nonNegativeCatalog_def)+
  then show ?thesis by (simp add: ev)
qed

lemma sum_list_positive_iff:
  "(\<forall>x\<in>set xs. (0::int) \<le> x) \<Longrightarrow> (1 \<le> sum_list xs) = (\<exists>x\<in>set xs. 1 \<le> x)"
proof (induction xs)
  case Nil
  then show ?case by simp
next
  case (Cons x xs)
  then have "0 \<le> x" and "0 \<le> sum_list xs" by (auto intro: sum_list_nonneg)
  with Cons show ?case by auto
qed

text \<open>
  Claim C8, as the code has it. For every catalog with non-negative integer weights and
  points and every answer list, every entry of the breakdown belongs to a category that
  occurs in the scoring map of a selected option, its value is at least 0, and its value
  is at least 1 exactly when some selected option gives the category a weighted value
  \<open>question.weight \<times> points\<close> of at least 1. An entry is created for every category a
  selected option names, so a breakdown can hold entries of value 0.
\<close>

theorem calculateScores_entries_nonneg:
  assumes "nonNegativeCatalog qs"
    and "(c, v) \<in> set (calculateScores as (questionMapOf qs))"
  shows "c \<in> spec_categories (questionMapOf qs) as \<and> 0 \<le> v
         \<and> (1 \<le> v \<longleftrightarrow> (\<exists>e\<in>set (spec_entries (questionMapOf qs) as). fst e = c \<and> 1 \<le> snd e))"
proof -
  let ?qm = "questionMapOf qs"
  let ?xs = "map snd (filter (\<lambda>e. fst e = c) (spec_entries ?qm as))"
  from assms(2) have "map_of (calculateScores as ?qm) c = Some v"
    using distinct_calculateScores by simp
  then have cat: "c \<in> spec_categories ?qm as" and v: "v = spec_total ?qm as c"
    by (auto simp: map_of_calculateScores split: if_splits)
  have nn: "\<forall>x\<in>set ?xs. 0 \<le> x"
    using spec_entries_nonneg[OF assms(1)] by auto
  have v': "v = sum_list ?xs" by (simp add: v spec_total_def entryTotal_def)
  have "0 \<le> v" unfolding v' using nn by (intro sum_list_nonneg) blast
  moreover have "(1 \<le> v) = (\<exists>x\<in>set ?xs. 1 \<le> x)"
    unfolding v' using nn by (rule sum_list_positive_iff)
  moreover have "(\<exists>x\<in>set ?xs. 1 \<le> x)
      = (\<exists>e\<in>set (spec_entries ?qm as). fst e = c \<and> 1 \<le> snd e)"
    by force
  ultimately show ?thesis using cat by simp
qed

theorem calculateScores_entries_nonneg_witness:
  "nonNegativeCatalog readmeCatalog
   \<and> (''leader'', 19) \<in> set (calculateScores threeAnswers (questionMapOf readmeCatalog))
   \<and> ''leader'' \<in> spec_categories (questionMapOf readmeCatalog) threeAnswers
   \<and> (\<exists>e\<in>set (spec_entries (questionMapOf readmeCatalog) threeAnswers).
         fst e = ''leader'' \<and> 1 \<le> snd e)"
proof -
  let ?qm = "questionMapOf readmeCatalog"
  have n: "nonNegativeCatalog readmeCatalog"
    by (simp add: nonNegativeCatalog_def readmeCatalog_def mkQuestion_def mkOption_def)
  have m: "(''leader'', 19) \<in> set (calculateScores threeAnswers ?qm)"
    by (simp add: calculateScores_def scoreAnswer_def addPoints_def threeAnswers_def
        readmeCatalog_def questionMapOf_def mkQuestion_def mkOption_def mkAnswer_def)
  from calculateScores_entries_nonneg[OF n m] n m show ?thesis by simp
qed

text \<open>
  Claim C8 as stated fails: with non-negative points, an option that names a category
  with 0 points puts a zero-valued entry into the breakdown of a validated submission.
\<close>

theorem calculateScores_zero_entry:
  "nonNegativeCatalog zeroCatalog
   \<and> validateAnswers oneAnswer (questionMapOf zeroCatalog) = Inr ()
   \<and> calculateScores oneAnswer (questionMapOf zeroCatalog) = [(''architect'', 0)]"
  by (simp add: nonNegativeCatalog_def validateAnswers_def calculateScores_def scoreAnswer_def
      addPoints_def oneAnswer_def zeroCatalog_def questionMapOf_def mkQuestion_def mkOption_def
      mkAnswer_def)

section \<open>The tie-break tables\<close>

lemma Math_max_Max:
  assumes "xs \<noteq> []"
  shows "Math_max xs = Num (Max (set xs))"
proof (cases xs)
  case Nil
  with assms show ?thesis by simp
next
  case (Cons a list)
  show ?thesis unfolding Cons by (simp only: Math_max.simps Max.set_eq_fold)
qed

lemma fold_max_Max: "fold max xs (x::int) = Max (set (x # xs))"
  by (simp only: Max.set_eq_fold)

lemma hasValue_Num: "hasValue obj (Num m) = (\<lambda>k. map_of obj k = Some m)"
  by (auto simp: fun_eq_iff hasValue_def split: option.splits)

lemma topPersonalities_contenders:
  "sc \<noteq> [] \<Longrightarrow>
     filter (hasValue sc (Math_max (map snd sc))) (map fst sc) = spec_contenders sc"
  by (simp add: Math_max_Max hasValue_Num spec_contenders_def del: filter_map)

lemma map_of_initial:
  "map_of (fold (\<lambda>p mc. AList.update p 0 mc) ps mc0) k =
     (if k \<in> set ps then Some (0::int) else map_of mc0 k)"
  by (induction ps arbitrary: mc0) (auto simp: update_conv')

lemma distinct_initial:
  "distinct (map fst mc0) \<Longrightarrow>
     distinct (map fst (fold (\<lambda>p mc. AList.update p (0::int) mc) ps mc0))"
  by (induction ps arbitrary: mc0) (auto simp: distinct_update)

lemma keys_contribute: "map fst (contribute q opt p mc) = map fst mc"
proof -
  have "\<And>cur v. map_of mc p = Some cur \<Longrightarrow> map fst (AList.update p v mc) = map fst mc"
    by (auto simp: update_keys dest: map_of_SomeD intro: rev_image_eqI)
  then show ?thesis by (auto simp: contribute_def split: option.splits)
qed

lemma map_of_contribute:
  "map_of (contribute q opt p mc) k =
     (if k = p
      then (case map_of mc p of
              None \<Rightarrow> None
            | Some cur \<Rightarrow>
                Some (case map_of (scores opt) p of
                        None \<Rightarrow> cur
                      | Some pts \<Rightarrow> if pts = 0 then cur else max cur (weight q * pts)))
      else map_of mc k)"
  by (auto simp: contribute_def update_conv' split: option.splits)

lemma keys_fold_contribute: "map fst (fold (contribute q opt) ps mc) = map fst mc"
  by (induction ps arbitrary: mc) (simp_all add: keys_contribute)

lemma map_of_fold_contribute:
  "distinct ps \<Longrightarrow>
   map_of (fold (contribute q opt) ps mc) k =
     (if k \<in> set ps
      then (case map_of mc k of
              None \<Rightarrow> None
            | Some cur \<Rightarrow>
                Some (case map_of (scores opt) k of
                        None \<Rightarrow> cur
                      | Some pts \<Rightarrow> if pts = 0 then cur else max cur (weight q * pts)))
      else map_of mc k)"
proof (induction ps arbitrary: mc)
  case Nil
  then show ?case by simp
next
  case (Cons p ps)
  then have d: "distinct ps" and np: "p \<notin> set ps" by simp_all
  show ?case
    using Cons.IH[OF d, of "contribute q opt p mc"] np
    by (auto simp: map_of_contribute)
qed

lemma keys_contributeAnswer: "map fst (contributeAnswer qm ps a mc) = map fst mc"
  by (simp add: contributeAnswer_def keys_fold_contribute split: option.splits)

lemma keys_fold_contributeAnswer:
  "map fst (fold (contributeAnswer qm ps) as mc) = map fst mc"
  by (induction as arbitrary: mc) (simp_all add: keys_contributeAnswer)

lemma contributions_single:
  "contributions qm k [a] =
     (case selectedOption qm a of
        None \<Rightarrow> []
      | Some (q, opt) \<Rightarrow>
          (case map_of (scores opt) k of None \<Rightarrow> [] | Some pts \<Rightarrow> [weight q * pts]))"
  by (simp split: option.splits)

lemma contributions_Cons:
  "contributions qm k (a # as) = contributions qm k [a] @ contributions qm k as"
  by (simp split: option.splits)

lemma map_of_contributeAnswer:
  assumes "distinct ps"
    and "\<And>k. map_of mc k = (if k \<in> set ps then Some (g k) else None)"
    and "\<And>k. 0 \<le> g k"
  shows "map_of (contributeAnswer qm ps a mc) k =
     (if k \<in> set ps then Some (fold max (contributions qm k [a]) (g k)) else None)"
proof (cases "selectedOption qm a")
  case None
  then have "contributeAnswer qm ps a mc = mc" and "contributions qm k [a] = []"
    by (auto simp: contributeAnswer_def selectedOption_def split: option.splits)
  then show ?thesis by (simp add: assms(2))
next
  case (Some qo)
  obtain q opt where qo: "qo = (q, opt)" by (cases qo)
  from Some qo have ca: "contributeAnswer qm ps a mc = fold (contribute q opt) ps mc"
    by (auto simp: contributeAnswer_def selectedOption_def split: option.splits)
  have z: "max (g k) 0 = g k" using assms(3)[of k] by simp
  show ?thesis
    using Some qo z
    by (simp add: ca map_of_fold_contribute[OF assms(1)] assms(2) contributions_single
        max.commute split: option.splits)
qed

lemma map_of_fold_contributeAnswer:
  assumes "distinct ps"
  shows "(\<And>k. map_of mc k = (if k \<in> set ps then Some (g k) else None)) \<Longrightarrow>
     (\<And>k. 0 \<le> g k) \<Longrightarrow>
     map_of (fold (contributeAnswer qm ps) as mc) k =
       (if k \<in> set ps then Some (fold max (contributions qm k as) (g k)) else None)"
proof (induction as arbitrary: mc g)
  case Nil
  then show ?case by simp
next
  case (Cons a as)
  let ?g = "\<lambda>k. fold max (contributions qm k [a]) (g k)"
  have m: "\<And>k. map_of (contributeAnswer qm ps a mc) k = (if k \<in> set ps then Some (?g k) else None)"
    using map_of_contributeAnswer[OF assms Cons.prems(1) Cons.prems(2)] by simp
  have nn: "\<And>k. 0 \<le> ?g k"
  proof -
    fix k
    have "g k \<le> Max (set (g k # contributions qm k [a]))" by (intro Max_ge) simp_all
    with Cons.prems(2)[of k] have "0 \<le> Max (set (g k # contributions qm k [a]))"
      by (rule order_trans)
    then show "0 \<le> ?g k" by (simp only: fold_max_Max)
  qed
  have "map_of (fold (contributeAnswer qm ps) as (contributeAnswer qm ps a mc)) k =
      (if k \<in> set ps then Some (fold max (contributions qm k as) (?g k)) else None)"
    using Cons.IH[of "contributeAnswer qm ps a mc" ?g, OF m nn] .
  moreover have "fold max (contributions qm k as) (?g k) = fold max (contributions qm k (a # as)) (g k)"
    by (subst (2) contributions_Cons) simp
  ultimately show ?case by simp
qed

lemma map_of_calculateMaxContributions:
  assumes "distinct ps"
  shows "map_of (calculateMaxContributions ps as qm) k =
     (if k \<in> set ps then Some (Max (set (0 # contributions qm k as))) else None)"
proof -
  have "map_of (calculateMaxContributions ps as qm) k =
      (if k \<in> set ps then Some (fold max (contributions qm k as) 0) else None)"
    unfolding calculateMaxContributions_def
    by (rule map_of_fold_contributeAnswer[OF assms, where g = "\<lambda>k. 0"])
      (simp_all add: map_of_initial)
  then show ?thesis by (simp only: fold_max_Max)
qed

lemma keys_calculateMaxContributions:
  "distinct (map fst (calculateMaxContributions ps as qm))
   \<and> set (map fst (calculateMaxContributions ps as qm)) = set ps"
proof -
  let ?init = "fold (\<lambda>p mc. AList.update p (0::int) mc) ps []"
  have k: "map fst (calculateMaxContributions ps as qm) = map fst ?init"
    by (simp add: calculateMaxContributions_def keys_fold_contributeAnswer)
  have d: "distinct (map fst ?init)" by (rule distinct_initial) simp
  have "set (map fst ?init) = dom (map_of ?init)" by (simp add: dom_map_of_conv_image_fst)
  also have "\<dots> = set ps" by (auto simp: dom_def map_of_initial)
  finally show ?thesis using k d by simp
qed

lemma values_calculateMaxContributions:
  assumes "distinct ps"
  shows "set (map snd (calculateMaxContributions ps as qm)) =
     (\<lambda>k. Max (set (0 # contributions qm k as))) ` set ps"
proof -
  let ?mc = "calculateMaxContributions ps as qm"
  have "snd ` set ?mc = ran (map_of ?mc)"
    using keys_calculateMaxContributions[of ps as qm] by (simp add: ran_distinct)
  also have "\<dots> = (\<lambda>k. Max (set (0 # contributions qm k as))) ` set ps"
    by (auto simp: ran_def map_of_calculateMaxContributions[OF assms] split: if_splits)
  finally show ?thesis by simp
qed

lemma winners_narrowed:
  assumes "distinct ps" and "ps \<noteq> []"
  shows "filter (hasValue (calculateMaxContributions ps as qm)
            (Math_max (map snd (calculateMaxContributions ps as qm)))) ps
         = spec_narrowed (\<lambda>k. Max (set (0 # contributions qm k as))) ps"
proof -
  let ?mc = "calculateMaxContributions ps as qm"
  from assms(2) keys_calculateMaxContributions[of ps as qm] have ne: "map snd ?mc \<noteq> []"
    by (cases ?mc) auto
  have mm: "Math_max (map snd ?mc) = Num (Max ((\<lambda>k. Max (set (0 # contributions qm k as))) ` set ps))"
    by (simp only: Math_max_Max[OF ne] values_calculateMaxContributions[OF assms(1)])
  show ?thesis
    unfolding spec_narrowed_def mm
    by (rule filter_cong) (simp_all add: hasValue_Num map_of_calculateMaxContributions[OF assms(1)])
qed

lemma spec_narrowed_nonempty: "ps \<noteq> [] \<Longrightarrow> spec_narrowed f ps \<noteq> []"
proof -
  assume "ps \<noteq> []"
  then have "Max (f ` set ps) \<in> f ` set ps" by (intro Max_in) simp_all
  then obtain k where "k \<in> set ps" and "f k = Max (f ` set ps)" by auto
  then have "k \<in> set (spec_narrowed f ps)" by (simp add: spec_narrowed_def)
  then show ?thesis by auto
qed

lemma sort_first_Min:
  fixes ws :: "string list"
  assumes "ws \<noteq> []"
  shows "(case sort ws of [] \<Rightarrow> None | w # rest \<Rightarrow> Some w) = Some (Min (set ws))"
proof (cases "sort ws")
  case Nil
  then have "set (sort ws) = {}" by simp
  with assms show ?thesis by simp
next
  case (Cons w rest)
  have "sorted (w # rest)" using sorted_sort[of ws] Cons by simp
  then have le: "\<forall>y\<in>set (w # rest). w \<le> y" by auto
  have s: "set (w # rest) = set ws" using set_sort[of "\<lambda>x. x" ws] Cons by simp
  have "Min (set ws) = w"
    by (rule Min_eqI) (use le s in auto)
  with Cons show ?thesis by simp
qed

lemma spec_contenders_nonempty:
  assumes "sc \<noteq> []" and "distinct (map fst sc)"
  shows "spec_contenders sc \<noteq> []"
proof -
  from assms(1) have "Max (snd ` set sc) \<in> snd ` set sc" by (intro Max_in) simp_all
  then obtain c where c: "(c, Max (snd ` set sc)) \<in> set sc" by force
  with assms(2) have "map_of sc c = Some (Max (snd ` set sc))" by simp
  with c have "c \<in> set (spec_contenders sc)" by (force simp: spec_contenders_def)
  then show ?thesis by auto
qed

lemma resolveTopPersonality_spec:
  assumes "sc \<noteq> []" and "distinct (map fst sc)"
  shows "resolveTopPersonality sc as qm =
     Some (spec_winner (\<lambda>k. Max (set (0 # contributions qm k as))) sc)"
proof -
  let ?cs = "spec_contenders sc"
  have d: "distinct ?cs" using assms(2) by (simp add: spec_contenders_def)
  have ne: "?cs \<noteq> []" using assms by (rule spec_contenders_nonempty)
  show ?thesis
  proof (cases "length ?cs = 1")
    case True
    then show ?thesis
      unfolding resolveTopPersonality_def Let_def topPersonalities_contenders[OF assms(1)]
      by (simp add: spec_winner_def)
  next
    case False
    have w: "spec_narrowed (\<lambda>k. Max (set (0 # contributions qm k as))) ?cs \<noteq> []"
      using ne by (rule spec_narrowed_nonempty)
    from False show ?thesis
      unfolding resolveTopPersonality_def Let_def topPersonalities_contenders[OF assms(1)]
        winners_narrowed[OF d ne] sort_first_Min[OF w]
      by (simp add: spec_winner_def)
  qed
qed

lemma floored_maxContribution:
  "Max (set (0 # contributions qm k as)) = max 0 (spec_maxContribution qm as k)"
  by (cases "contributions qm k as") (simp_all add: spec_maxContribution_def)

lemma contributions_nonneg:
  assumes "nonNegativeCatalog qs" and "x \<in> set (contributions (questionMapOf qs) k as)"
  shows "0 \<le> x"
  using assms(2)
proof (induction as)
  case Nil
  then show ?case by simp
next
  case (Cons a as)
  show ?case
  proof (cases "selectedOption (questionMapOf qs) a")
    case None
    with Cons show ?thesis by simp
  next
    case (Some qo)
    obtain q opt where qo: "qo = (q, opt)" by (cases qo)
    show ?thesis
    proof (cases "map_of (scores opt) k")
      case None
      with Cons Some qo show ?thesis by simp
    next
      case (Some pts)
      then have "(k, pts) \<in> set (scores opt)" by (rule map_of_SomeD)
      moreover from \<open>selectedOption (questionMapOf qs) a = Some qo\<close> qo
      have "q \<in> set qs \<and> opt \<in> set (options q)" by (simp add: selectedOption_member)
      ultimately have "0 \<le> weight q" and "0 \<le> pts"
        using assms(1) by (force simp: nonNegativeCatalog_def)+
      then have "0 \<le> weight q * pts" by simp
      with Cons Some \<open>selectedOption (questionMapOf qs) a = Some qo\<close> qo show ?thesis by auto
    qed
  qed
qed

lemma spec_maxContribution_nonneg:
  assumes "nonNegativeCatalog qs"
  shows "0 \<le> spec_maxContribution (questionMapOf qs) as k"
proof (cases "contributions (questionMapOf qs) k as")
  case Nil
  then show ?thesis by (simp add: spec_maxContribution_def)
next
  case (Cons x xs)
  have "0 \<le> x" using contributions_nonneg[OF assms, of x k as] Cons by simp
  moreover have "x \<le> Max (set (x # xs))" by (intro Max_ge) simp_all
  ultimately have "0 \<le> Max (set (x # xs))" by (rule order_trans)
  then show ?thesis by (simp add: spec_maxContribution_def Cons)
qed

text \<open>
  Claim C1. For every question catalog of the data model (non-negative weights and
  points) and every answer list whose score breakdown is non-empty,
  \<open>resolveTopPersonality\<close> returns the winner of the three-level cascade: among the
  categories of the breakdown with the maximum total it returns the single contender if
  there is exactly one; otherwise it keeps the contenders whose maximum single-question
  contribution (the largest \<open>question.weight \<times> option.scores[category]\<close> over the
  submitted answers, 0 if the category appears in no selected option) equals the maximum
  of these values over the contenders; of those it returns the lexicographically
  smallest id.
\<close>

theorem resolveTopPersonality_cascade:
  assumes "nonNegativeCatalog qs"
    and "calculateScores as (questionMapOf qs) \<noteq> []"
  shows "resolveTopPersonality (calculateScores as (questionMapOf qs)) as (questionMapOf qs)
           = Some (spec_winner (spec_maxContribution (questionMapOf qs) as)
                     (calculateScores as (questionMapOf qs)))"
proof -
  let ?qm = "questionMapOf qs"
  have "(\<lambda>c. Max (set (0 # contributions ?qm c as))) = spec_maxContribution ?qm as"
  proof
    fix c
    have "0 \<le> spec_maxContribution ?qm as c"
      using assms(1) by (rule spec_maxContribution_nonneg)
    then show "Max (set (0 # contributions ?qm c as)) = spec_maxContribution ?qm as c"
      unfolding floored_maxContribution by simp
  qed
  with resolveTopPersonality_spec[OF assms(2) distinct_calculateScores, of as]
  show ?thesis by simp
qed

theorem resolveTopPersonality_cascade_witness:
  "nonNegativeCatalog tieCatalog
   \<and> calculateScores twoAnswers (questionMapOf tieCatalog) = [(''beta'', 12), (''alpha'', 12)]
   \<and> spec_maxContribution (questionMapOf tieCatalog) twoAnswers ''alpha'' = 8
   \<and> spec_maxContribution (questionMapOf tieCatalog) twoAnswers ''beta'' = 6
   \<and> resolveTopPersonality (calculateScores twoAnswers (questionMapOf tieCatalog)) twoAnswers
        (questionMapOf tieCatalog) = Some ''alpha''
   \<and> spec_winner (spec_maxContribution (questionMapOf tieCatalog) twoAnswers)
        (calculateScores twoAnswers (questionMapOf tieCatalog)) = ''alpha''"
proof -
  let ?qm = "questionMapOf tieCatalog"
  have sc: "calculateScores twoAnswers ?qm = [(''beta'', 12), (''alpha'', 12)]"
    by (simp add: calculateScores_def scoreAnswer_def addPoints_def twoAnswers_def
        tieCatalog_def questionMapOf_def mkQuestion_def mkOption_def mkAnswer_def)
  have ne: "calculateScores twoAnswers ?qm \<noteq> []" by (simp add: sc)
  have nn: "nonNegativeCatalog tieCatalog"
    by (simp add: nonNegativeCatalog_def tieCatalog_def mkQuestion_def mkOption_def)
  have a: "spec_maxContribution ?qm twoAnswers ''alpha'' = 8"
    by (simp add: spec_maxContribution_def selectedOption_def twoAnswers_def
        tieCatalog_def questionMapOf_def mkQuestion_def mkOption_def mkAnswer_def)
  have b: "spec_maxContribution ?qm twoAnswers ''beta'' = 6"
    by (simp add: spec_maxContribution_def selectedOption_def twoAnswers_def
        tieCatalog_def questionMapOf_def mkQuestion_def mkOption_def mkAnswer_def)
  have r: "resolveTopPersonality (calculateScores twoAnswers ?qm) twoAnswers ?qm = Some ''alpha''"
    by code_simp
  from resolveTopPersonality_cascade[OF nn ne] r
  have "spec_winner (spec_maxContribution ?qm twoAnswers) (calculateScores twoAnswers ?qm) = ''alpha''"
    by simp
  with sc nn a b r show ?thesis by simp
qed

section \<open>The outcomes of submitQuiz\<close>

lemma submitQuiz_completed:
  "completed userId s \<Longrightarrow> submitQuiz dto userId tok now s = (Inl alreadyCompleted, s)"
  by (auto simp: completed_def submitQuiz_def hasCompletedQuiz_def findById_def
      alreadyCompleted_def split: option.splits)

lemma submitQuiz_invalid:
  assumes "validateAnswers (answers dto) (questionMapOf (questions s)) = Inl e"
  shows "\<exists>e'. submitQuiz dto userId tok now s = (Inl e', s)
           \<and> (hasCompletedQuiz userId s = Inr False \<and> questions s \<noteq> [] \<longrightarrow> e' = e)"
  using assms
  by (auto simp: submitQuiz_def getQuestions_def Let_def split: sum.splits)

lemma submitQuiz_success:
  assumes "users s userId = Some u" and "\<not> user_hasCompletedQuiz u" and "questions s \<noteq> []"
    and "validateAnswers (answers dto) (questionMapOf (questions s)) = Inr ()"
    and "resolveTopPersonality (calculateScores (answers dto) (questionMapOf (questions s)))
           (answers dto) (questionMapOf (questions s)) \<noteq> None"
  shows "submitQuiz dto userId tok now s =
     (Inr \<lparr>token = tok,
           topPersonality = resolveTopPersonality
             (calculateScores (answers dto) (questionMapOf (questions s)))
             (answers dto) (questionMapOf (questions s)),
           response_scores = calculateScores (answers dto) (questionMapOf (questions s))\<rparr>,
      s\<lparr>results := AList.update tok
           \<lparr>result_id = tok, result_userId = userId,
            result_topPersonality = resolveTopPersonality
              (calculateScores (answers dto) (questionMapOf (questions s)))
              (answers dto) (questionMapOf (questions s)),
            result_scores = calculateScores (answers dto) (questionMapOf (questions s)),
            result_answers = answers dto, result_createdAt = now\<rparr> (results s),
         users := (users s)(userId \<mapsto> u\<lparr>user_hasCompletedQuiz := True, quizToken := Some tok\<rparr>)\<rparr>)"
proof -
  from assms(5) obtain w where w: "resolveTopPersonality
      (calculateScores (answers dto) (questionMapOf (questions s)))
      (answers dto) (questionMapOf (questions s)) = Some w"
    by auto
  show ?thesis
    using assms(1-4)
    by (simp add: submitQuiz_def hasCompletedQuiz_def findById_def getQuestions_def Let_def
        saveResult_def markQuizCompleted_def w)
qed

lemma submitQuiz_no_winner:
  assumes "users s userId = Some u" and "\<not> user_hasCompletedQuiz u" and "questions s \<noteq> []"
    and "validateAnswers (answers dto) (questionMapOf (questions s)) = Inr ()"
    and "resolveTopPersonality (calculateScores (answers dto) (questionMapOf (questions s)))
           (answers dto) (questionMapOf (questions s)) = None"
  shows "submitQuiz dto userId tok now s = (Inl undefinedTopPersonality, s)"
  using assms
  by (simp add: submitQuiz_def hasCompletedQuiz_def findById_def getQuestions_def Let_def
      saveResult_def)

lemma submitQuiz_outcome:
  "(\<exists>e. submitQuiz dto userId tok now s = (Inl e, s))
   \<or> (\<exists>u. users s userId = Some u \<and> \<not> user_hasCompletedQuiz u \<and> questions s \<noteq> []
          \<and> validateAnswers (answers dto) (questionMapOf (questions s)) = Inr ()
          \<and> resolveTopPersonality (calculateScores (answers dto) (questionMapOf (questions s)))
                (answers dto) (questionMapOf (questions s)) \<noteq> None)"
proof (cases "users s userId")
  case None
  then show ?thesis
    by (simp add: submitQuiz_def hasCompletedQuiz_def findById_def)
next
  case (Some u)
  show ?thesis
  proof (cases "user_hasCompletedQuiz u \<or> questions s = []")
    case True
    with Some show ?thesis
      by (auto simp: submitQuiz_def hasCompletedQuiz_def findById_def getQuestions_def)
  next
    case False
    show ?thesis
    proof (cases "validateAnswers (answers dto) (questionMapOf (questions s))")
      case (Inl e)
      with Some False show ?thesis
        by (simp add: submitQuiz_def hasCompletedQuiz_def findById_def getQuestions_def)
    next
      case (Inr x)
      show ?thesis
      proof (cases "resolveTopPersonality
          (calculateScores (answers dto) (questionMapOf (questions s)))
          (answers dto) (questionMapOf (questions s))")
        case None
        with Some False Inr have "submitQuiz dto userId tok now s = (Inl undefinedTopPersonality, s)"
          by (intro submitQuiz_no_winner[where u = u]) simp_all
        then show ?thesis by blast
      next
        case (Some w)
        with \<open>users s userId = Some u\<close> False Inr show ?thesis by simp
      qed
    qed
  qed
qed

lemma submitQuiz_Inr_completed:
  assumes "submitQuiz dto userId tok now s = (Inr r, s')"
  shows "completed userId s'"
proof -
  from submitQuiz_outcome[of dto userId tok now s] assms
  obtain u where u: "users s userId = Some u" "\<not> user_hasCompletedQuiz u" "questions s \<noteq> []"
      "validateAnswers (answers dto) (questionMapOf (questions s)) = Inr ()"
      "resolveTopPersonality (calculateScores (answers dto) (questionMapOf (questions s)))
         (answers dto) (questionMapOf (questions s)) \<noteq> None"
    by auto
  from submitQuiz_success[OF u, of tok now] assms show ?thesis
    by (auto simp: completed_def)
qed

section \<open>The attempt gate over a sequential execution\<close>

lemma filter_update_length:
  "length (filter P (map snd (AList.update k v al)))
     \<le> length (filter P (map snd al)) + (if P v then 1 else 0)"
  by (induction al) auto

lemma resultsOf_save:
  "length (resultsOf w (s\<lparr>results := AList.update k v (results s), users := U\<rparr>))
     \<le> length (resultsOf w s) + (if result_userId v = w then 1 else 0)"
  using filter_update_length[of "\<lambda>r. result_userId r = w" k v "results s"]
  by (simp add: resultsOf_def)

lemma step_completed: "completed userId s \<Longrightarrow> completed userId (step c s)"
proof -
  assume c: "completed userId s"
  from submitQuiz_outcome[of "sub_body c" "sub_userId c" "sub_token c" "sub_now c" s]
  show ?thesis
  proof
    assume "\<exists>e. submitQuiz (sub_body c) (sub_userId c) (sub_token c) (sub_now c) s = (Inl e, s)"
    with c show ?thesis by (auto simp: step_def)
  next
    assume "\<exists>u. users s (sub_userId c) = Some u \<and> \<not> user_hasCompletedQuiz u \<and> questions s \<noteq> []
          \<and> validateAnswers (answers (sub_body c)) (questionMapOf (questions s)) = Inr ()
          \<and> resolveTopPersonality
                (calculateScores (answers (sub_body c)) (questionMapOf (questions s)))
                (answers (sub_body c)) (questionMapOf (questions s)) \<noteq> None"
    then obtain u where u: "users s (sub_userId c) = Some u" "\<not> user_hasCompletedQuiz u"
        "questions s \<noteq> []"
        "validateAnswers (answers (sub_body c)) (questionMapOf (questions s)) = Inr ()"
        "resolveTopPersonality
           (calculateScores (answers (sub_body c)) (questionMapOf (questions s)))
           (answers (sub_body c)) (questionMapOf (questions s)) \<noteq> None"
      by auto
    from c show ?thesis
      by (auto simp: step_def submitQuiz_success[OF u] completed_def split: option.splits)
  qed
qed

lemma run_completed: "completed userId s \<Longrightarrow> completed userId (run cs s)"
  unfolding run_def by (induction cs arbitrary: s) (simp_all add: step_completed)

lemma step_oneResultPerUser:
  assumes inv: "oneResultPerUser s"
  shows "oneResultPerUser (step c s)"
proof -
  from submitQuiz_outcome[of "sub_body c" "sub_userId c" "sub_token c" "sub_now c" s]
  show ?thesis
  proof
    assume "\<exists>e. submitQuiz (sub_body c) (sub_userId c) (sub_token c) (sub_now c) s = (Inl e, s)"
    with inv show ?thesis by (auto simp: step_def)
  next
    assume "\<exists>u. users s (sub_userId c) = Some u \<and> \<not> user_hasCompletedQuiz u \<and> questions s \<noteq> []
          \<and> validateAnswers (answers (sub_body c)) (questionMapOf (questions s)) = Inr ()
          \<and> resolveTopPersonality
                (calculateScores (answers (sub_body c)) (questionMapOf (questions s)))
                (answers (sub_body c)) (questionMapOf (questions s)) \<noteq> None"
    then obtain u where u: "users s (sub_userId c) = Some u" "\<not> user_hasCompletedQuiz u"
        "questions s \<noteq> []"
        "validateAnswers (answers (sub_body c)) (questionMapOf (questions s)) = Inr ()"
        "resolveTopPersonality
           (calculateScores (answers (sub_body c)) (questionMapOf (questions s)))
           (answers (sub_body c)) (questionMapOf (questions s)) \<noteq> None"
      by auto
    let ?s' = "step c s"
    from u have nc: "\<not> completed (sub_userId c) s" by (simp add: completed_def)
    with inv have none: "resultsOf (sub_userId c) s = []" by (simp add: oneResultPerUser_def)
    have "(\<not> completed w ?s' \<longrightarrow> resultsOf w ?s' = []) \<and> length (resultsOf w ?s') \<le> 1" for w
    proof (cases "w = sub_userId c")
      case True
      have "length (resultsOf w ?s') \<le> length (resultsOf w s) + 1"
        unfolding step_def submitQuiz_success[OF u] snd_conv
        by (rule order_trans[OF resultsOf_save]) simp
      with none True have "length (resultsOf w ?s') \<le> 1" by simp
      moreover have "completed w ?s'"
        by (simp add: step_def submitQuiz_success[OF u] completed_def True)
      ultimately show ?thesis by simp
    next
      case False
      have le: "length (resultsOf w ?s') \<le> length (resultsOf w s)"
        unfolding step_def submitQuiz_success[OF u] snd_conv
        by (rule order_trans[OF resultsOf_save]) (use False in simp)
      have same: "completed w ?s' = completed w s"
        using False by (simp add: step_def submitQuiz_success[OF u] completed_def)
      from inv have "(\<not> completed w s \<longrightarrow> resultsOf w s = []) \<and> length (resultsOf w s) \<le> 1"
        by (simp add: oneResultPerUser_def)
      with le same show ?thesis by auto
    qed
    then show ?thesis by (simp add: oneResultPerUser_def)
  qed
qed

lemma run_oneResultPerUser: "oneResultPerUser s \<Longrightarrow> oneResultPerUser (run cs s)"
  unfolding run_def by (induction cs arbitrary: s) (simp_all add: step_oneResultPerUser)

lemma empty_oneResultPerUser: "results s = [] \<Longrightarrow> oneResultPerUser s"
  by (simp add: oneResultPerUser_def resultsOf_def)

lemma readme_valid:
  "validateAnswers threeAnswers (questionMapOf readmeCatalog) = Inr ()"
  by (simp add: validateAnswers_def threeAnswers_def readmeCatalog_def questionMapOf_def
      mkQuestion_def mkOption_def mkAnswer_def)

lemma readme_scores:
  "calculateScores threeAnswers (questionMapOf readmeCatalog) = [(''architect'', 18), (''leader'', 19)]"
  by (simp add: calculateScores_def scoreAnswer_def addPoints_def threeAnswers_def
      readmeCatalog_def questionMapOf_def mkQuestion_def mkOption_def mkAnswer_def)

lemma readme_winner:
  "resolveTopPersonality [(''architect'', 18), (''leader'', 19)] threeAnswers
     (questionMapOf readmeCatalog) = Some ''leader''"
  by (simp add: resolveTopPersonality_def hasValue_def)

lemma fresh_submit:
  assumes "userId = ''u1'' \<or> userId = ''u2''"
  shows "submitQuiz \<lparr>answers = threeAnswers\<rparr> userId tok now (freshState readmeCatalog) =
     (Inr \<lparr>token = tok, topPersonality = Some ''leader'',
           response_scores = [(''architect'', 18), (''leader'', 19)]\<rparr>,
      (freshState readmeCatalog)
        \<lparr>results := [(tok, \<lparr>result_id = tok, result_userId = userId,
                            result_topPersonality = Some ''leader'',
                            result_scores = [(''architect'', 18), (''leader'', 19)],
                            result_answers = threeAnswers, result_createdAt = now\<rparr>)],
         users := (users (freshState readmeCatalog))(userId \<mapsto>
           (mkUser userId False)\<lparr>user_hasCompletedQuiz := True, quizToken := Some tok\<rparr>)\<rparr>)"
proof -
  have u: "users (freshState readmeCatalog) userId = Some (mkUser userId False)"
    using assms by (auto simp: freshState_def)
  have nc: "\<not> user_hasCompletedQuiz (mkUser userId False)" by (simp add: mkUser_def)
  have q: "questions (freshState readmeCatalog) \<noteq> []"
    by (simp add: freshState_def readmeCatalog_def)
  have v: "validateAnswers (answers \<lparr>answers = threeAnswers\<rparr>)
      (questionMapOf (questions (freshState readmeCatalog))) = Inr ()"
    by (simp add: freshState_def readme_valid)
  have w: "resolveTopPersonality
      (calculateScores (answers \<lparr>answers = threeAnswers\<rparr>)
         (questionMapOf (questions (freshState readmeCatalog))))
      (answers \<lparr>answers = threeAnswers\<rparr>)
      (questionMapOf (questions (freshState readmeCatalog))) \<noteq> None"
    by (simp add: freshState_def readme_scores readme_winner)
  show ?thesis
    unfolding submitQuiz_success[OF u nc q v w]
    by (simp add: freshState_def readme_scores readme_winner)
qed

text \<open>
  Claim C3. In a sequential execution, once a user's \<open>hasCompletedQuiz\<close> flag is set it
  stays set through every later submission, and every later \<open>submitQuiz\<close> call of that
  user, whatever its answers, fails with the already-completed \<open>ForbiddenException\<close>
  and leaves the state as it was: nothing is validated, scored or stored. A successful
  submission sets the flag of its user. Hence, in a system that starts without results,
  no user ever owns more than one stored result.
\<close>

theorem single_attempt:
  "(completed userId s \<longrightarrow>
      completed userId (run cs s)
      \<and> submitQuiz dto userId tok now (run cs s) = (Inl alreadyCompleted, run cs s))
   \<and> (\<forall>r s'. submitQuiz dto userId tok now s = (Inr r, s') \<longrightarrow> completed userId s')
   \<and> (results s = [] \<longrightarrow> length (resultsOf userId (run cs s)) \<le> 1)"
proof (intro conjI impI allI)
  assume "completed userId s"
  then show c: "completed userId (run cs s)" by (rule run_completed)
  then show "submitQuiz dto userId tok now (run cs s) = (Inl alreadyCompleted, run cs s)"
    by (rule submitQuiz_completed)
next
  fix r s'
  assume "submitQuiz dto userId tok now s = (Inr r, s')"
  then show "completed userId s'" by (rule submitQuiz_Inr_completed)
next
  assume "results s = []"
  then have "oneResultPerUser (run cs s)"
    by (intro run_oneResultPerUser empty_oneResultPerUser)
  then show "length (resultsOf userId (run cs s)) \<le> 1" by (simp add: oneResultPerUser_def)
qed

theorem single_attempt_witness:
  "completed ''u1'' (step (submissionBy ''u1'' ''t1'' threeAnswers) (freshState readmeCatalog))
   \<and> submitQuiz \<lparr>answers = threeAnswers\<rparr> ''u1'' ''t3'' 3
        (run [submissionBy ''u2'' ''t2'' threeAnswers]
           (step (submissionBy ''u1'' ''t1'' threeAnswers) (freshState readmeCatalog)))
      = (Inl alreadyCompleted,
         run [submissionBy ''u2'' ''t2'' threeAnswers]
           (step (submissionBy ''u1'' ''t1'' threeAnswers) (freshState readmeCatalog)))
   \<and> results (freshState readmeCatalog) = []
   \<and> length (resultsOf ''u1''
        (run [submissionBy ''u1'' ''t1'' threeAnswers, submissionBy ''u1'' ''t4'' threeAnswers]
           (freshState readmeCatalog))) \<le> 1"
proof -
  let ?s1 = "step (submissionBy ''u1'' ''t1'' threeAnswers) (freshState readmeCatalog)"
  have c: "completed ''u1'' ?s1"
    by (simp add: step_def submissionBy_def fresh_submit completed_def)
  have e: "results (freshState readmeCatalog) = []" by (simp add: freshState_def)
  from single_attempt[of "''u1''" ?s1 "[submissionBy ''u2'' ''t2'' threeAnswers]"
      "\<lparr>answers = threeAnswers\<rparr>" "''t3''" 3] c
  have 1: "submitQuiz \<lparr>answers = threeAnswers\<rparr> ''u1'' ''t3'' 3
        (run [submissionBy ''u2'' ''t2'' threeAnswers] ?s1)
      = (Inl alreadyCompleted, run [submissionBy ''u2'' ''t2'' threeAnswers] ?s1)"
    by blast
  from single_attempt[of "''u1''" "freshState readmeCatalog"
      "[submissionBy ''u1'' ''t1'' threeAnswers, submissionBy ''u1'' ''t4'' threeAnswers]"] e
  have 2: "length (resultsOf ''u1''
        (run [submissionBy ''u1'' ''t1'' threeAnswers, submissionBy ''u1'' ''t4'' threeAnswers]
           (freshState readmeCatalog))) \<le> 1"
    by blast
  from c 1 e 2 show ?thesis by blast
qed

text \<open>
  Claim C4. When the answers of a submission fail validation, \<open>submitQuiz\<close> returns an
  error and the state it returns is the state it was given: no result is stored and no
  flag is set. For a user who may still submit, with a non-empty catalog, the error is
  the validation error itself. The same holds at the endpoint.
\<close>

theorem invalid_submission_stores_nothing:
  assumes "validateAnswers (answers dto) (questionMapOf (questions s)) = Inl e"
  shows "(\<exists>e'. submitQuiz dto userId tok now s = (Inl e', s)
            \<and> (hasCompletedQuiz userId s = Inr False \<and> questions s \<noteq> [] \<longrightarrow> e' = e))
         \<and> (\<exists>e'. QuizController_submitQuiz dto userId tok now s = (Inl e', s))"
proof -
  from submitQuiz_invalid[OF assms, of userId tok now]
  obtain e' where e': "submitQuiz dto userId tok now s = (Inl e', s)"
    and same: "hasCompletedQuiz userId s = Inr False \<and> questions s \<noteq> [] \<longrightarrow> e' = e"
    by blast
  have "\<exists>e''. QuizController_submitQuiz dto userId tok now s = (Inl e'', s)"
    by (cases "validationPipe dto")
      (auto simp: QuizController_submitQuiz_def validationPipe_def e' split: list.splits)
  with e' same show ?thesis by blast
qed

theorem invalid_submission_stores_nothing_witness:
  "validateAnswers (answers \<lparr>answers = threeAnswers @ [mkAnswer ''Q1'' ''A'']\<rparr>)
       (questionMapOf (questions (freshState readmeCatalog)))
     = Inl (BadRequestException ''Duplicate answer for question: Q1'')
   \<and> submitQuiz \<lparr>answers = threeAnswers @ [mkAnswer ''Q1'' ''A'']\<rparr> ''u1'' ''t1'' 1
        (freshState readmeCatalog)
     = (Inl (BadRequestException ''Duplicate answer for question: Q1''), freshState readmeCatalog)"
proof -
  let ?dto = "\<lparr>answers = threeAnswers @ [mkAnswer ''Q1'' ''A'']\<rparr>"
  have v: "validateAnswers (answers ?dto) (questionMapOf (questions (freshState readmeCatalog)))
      = Inl (BadRequestException ''Duplicate answer for question: Q1'')"
    by (simp add: validateAnswers_def freshState_def threeAnswers_def readmeCatalog_def
        questionMapOf_def mkQuestion_def mkOption_def mkAnswer_def)
  have g: "hasCompletedQuiz ''u1'' (freshState readmeCatalog) = Inr False
      \<and> questions (freshState readmeCatalog) \<noteq> []"
    by (simp add: hasCompletedQuiz_def findById_def freshState_def mkUser_def readmeCatalog_def)
  from invalid_submission_stores_nothing[OF v, of "''u1''" "''t1''" 1] g v
  show ?thesis by auto
qed

text \<open>
  Claim C6. A submission whose answer list has zero entries is rejected at the endpoint
  by the \<open>ArrayMinSize(1)\<close> constraint of \<open>SubmitQuizDto\<close>, with the message
  ``At least one answer is required'', before the service is called: the state is
  unchanged, so nothing is scored or stored. (The check is the DTO's; \<open>validateAnswers\<close>
  on its own accepts an empty list.)
\<close>

theorem empty_submission_rejected:
  assumes "answers body = []"
  shows "QuizController_submitQuiz body userId tok now s
           = (Inl (ValidationFailed [''At least one answer is required'']), s)
         \<and> validateAnswers (answers body) questionMap = Inr ()"
  using assms
  by (simp add: QuizController_submitQuiz_def validationPipe_def dtoConstraints_def
      validateAnswers_def)

theorem empty_submission_rejected_witness:
  "answers \<lparr>answers = []\<rparr> = []
   \<and> QuizController_submitQuiz \<lparr>answers = []\<rparr> ''u1'' ''t1'' 1 (freshState readmeCatalog)
       = (Inl (ValidationFailed [''At least one answer is required'']), freshState readmeCatalog)"
proof -
  have h: "answers \<lparr>answers = []\<rparr> = []" by simp
  from empty_submission_rejected[OF h, of "''u1''" "''t1''" 1 "freshState readmeCatalog"] h
  show ?thesis by simp
qed

text \<open>
  Claim C9. The breakdown and the winner of a successful submission are the values of
  \<open>calculateScores\<close> and \<open>resolveTopPersonality\<close> on the answers and the catalog, and
  of nothing else: two successful submissions of the same answers against the same
  catalog, by any two users, in any two states, with any tokens and times, return the
  same breakdown and the same winner.
\<close>

theorem scoring_deterministic:
  assumes "submitQuiz dto u1 t1 n1 s1 = (Inr r1, s1')"
    and "submitQuiz dto u2 t2 n2 s2 = (Inr r2, s2')"
    and "questions s1 = questions s2"
  shows "response_scores r1 = response_scores r2 \<and> topPersonality r1 = topPersonality r2
         \<and> response_scores r1 = calculateScores (answers dto) (questionMapOf (questions s1))
         \<and> topPersonality r1 = resolveTopPersonality
              (calculateScores (answers dto) (questionMapOf (questions s1)))
              (answers dto) (questionMapOf (questions s1))"
proof -
  from submitQuiz_outcome[of dto u1 t1 n1 s1] assms(1)
  obtain a where a: "users s1 u1 = Some a" "\<not> user_hasCompletedQuiz a" "questions s1 \<noteq> []"
      "validateAnswers (answers dto) (questionMapOf (questions s1)) = Inr ()"
      "resolveTopPersonality (calculateScores (answers dto) (questionMapOf (questions s1)))
         (answers dto) (questionMapOf (questions s1)) \<noteq> None"
    by auto
  from submitQuiz_outcome[of dto u2 t2 n2 s2] assms(2)
  obtain b where b: "users s2 u2 = Some b" "\<not> user_hasCompletedQuiz b" "questions s2 \<noteq> []"
      "validateAnswers (answers dto) (questionMapOf (questions s2)) = Inr ()"
      "resolveTopPersonality (calculateScores (answers dto) (questionMapOf (questions s2)))
         (answers dto) (questionMapOf (questions s2)) \<noteq> None"
    by auto
  from submitQuiz_success[OF a, of t1 n1] assms(1)
  have r1: "r1 = \<lparr>token = t1,
      topPersonality = resolveTopPersonality
        (calculateScores (answers dto) (questionMapOf (questions s1)))
        (answers dto) (questionMapOf (questions s1)),
      response_scores = calculateScores (answers dto) (questionMapOf (questions s1))\<rparr>"
    by simp
  from submitQuiz_success[OF b, of t2 n2] assms(2)
  have r2: "r2 = \<lparr>token = t2,
      topPersonality = resolveTopPersonality
        (calculateScores (answers dto) (questionMapOf (questions s2)))
        (answers dto) (questionMapOf (questions s2)),
      response_scores = calculateScores (answers dto) (questionMapOf (questions s2))\<rparr>"
    by simp
  show ?thesis by (simp add: r1 r2 assms(3))
qed

theorem scoring_deterministic_witness:
  "\<exists>r1 s1 r2 s2.
     submitQuiz \<lparr>answers = threeAnswers\<rparr> ''u1'' ''t1'' 1 (freshState readmeCatalog) = (Inr r1, s1)
     \<and> submitQuiz \<lparr>answers = threeAnswers\<rparr> ''u2'' ''t2'' 2 (freshState readmeCatalog) = (Inr r2, s2)
     \<and> response_scores r1 = response_scores r2 \<and> topPersonality r1 = topPersonality r2
     \<and> topPersonality r1 = Some ''leader''"
proof -
  let ?s = "freshState readmeCatalog"
  obtain r1 s1 where 1: "submitQuiz \<lparr>answers = threeAnswers\<rparr> ''u1'' ''t1'' 1 ?s = (Inr r1, s1)"
    and w: "topPersonality r1 = Some ''leader''"
    using fresh_submit[of "''u1''" "''t1''" 1] by simp
  obtain r2 s2 where 2: "submitQuiz \<lparr>answers = threeAnswers\<rparr> ''u2'' ''t2'' 2 ?s = (Inr r2, s2)"
    using fresh_submit[of "''u2''" "''t2''" 2] by simp
  from scoring_deterministic[OF 1 2] 1 2 w show ?thesis by blast
qed

section \<open>A submission without a winner\<close>

lemma no_scores_no_entries:
  assumes "\<forall>a\<in>set as. \<forall>q opt. selectedOption qm a = Some (q, opt) \<longrightarrow> scores opt = []"
  shows "calculateScores as qm = []"
proof -
  have "awardedEntries qm a = []" if "a \<in> set as" for a
    using assms that by (cases "selectedOption qm a") (auto simp: awardedEntries_def)
  then have "spec_entries qm as = []" by (simp add: spec_entries_def)
  then show ?thesis by (simp add: calculateScores_entries)
qed

lemma resolveTopPersonality_empty: "resolveTopPersonality [] as qm = None"
  by (simp add: resolveTopPersonality_def)

lemma submitQuiz_Inr_winner:
  assumes "submitQuiz dto userId tok now s = (Inr r, s')"
  shows "\<exists>w. topPersonality r = Some w
           \<and> map_of (results s') tok
               = Some \<lparr>result_id = tok, result_userId = userId,
                       result_topPersonality = Some w, result_scores = response_scores r,
                       result_answers = answers dto, result_createdAt = now\<rparr>"
proof -
  from submitQuiz_outcome[of dto userId tok now s] assms
  obtain u where u: "users s userId = Some u" "\<not> user_hasCompletedQuiz u" "questions s \<noteq> []"
      "validateAnswers (answers dto) (questionMapOf (questions s)) = Inr ()"
      "resolveTopPersonality (calculateScores (answers dto) (questionMapOf (questions s)))
         (answers dto) (questionMapOf (questions s)) \<noteq> None"
    by auto
  from u(5) obtain w where w: "resolveTopPersonality
      (calculateScores (answers dto) (questionMapOf (questions s)))
      (answers dto) (questionMapOf (questions s)) = Some w"
    by auto
  from submitQuiz_success[OF u, of tok now] assms w show ?thesis
    by (auto simp: update_conv')
qed

text \<open>
  Claim C10, as the code has it. Whenever every option selected by a validated,
  non-empty answer list has an empty scoring map, the breakdown is empty and
  \<open>resolveTopPersonality\<close> returns no category. For a user who may still submit, the
  submission then fails when the result is saved, since the store refuses the undefined
  \<open>topPersonality\<close>: the endpoint returns that error and the state is unchanged, so no
  result is stored and the user's flag is not set. An empty breakdown never has a
  winner, and every submission that succeeds returns a winner and stores it under its
  token.
\<close>

theorem empty_breakdown_no_winner:
  assumes "answers dto \<noteq> []"
    and "validationPipe dto = Inr dto"
    and "validateAnswers (answers dto) (questionMapOf (questions s)) = Inr ()"
    and "\<forall>a\<in>set (answers dto). \<forall>q opt.
           selectedOption (questionMapOf (questions s)) a = Some (q, opt) \<longrightarrow> scores opt = []"
    and "users s userId = Some u" and "\<not> user_hasCompletedQuiz u" and "questions s \<noteq> []"
  shows "calculateScores (answers dto) (questionMapOf (questions s)) = []
         \<and> resolveTopPersonality (calculateScores (answers dto) (questionMapOf (questions s)))
              (answers dto) (questionMapOf (questions s)) = None
         \<and> submitQuiz dto userId tok now s = (Inl undefinedTopPersonality, s)
         \<and> QuizController_submitQuiz dto userId tok now s = (Inl undefinedTopPersonality, s)
         \<and> (\<forall>as qm. calculateScores as qm = []
               \<longrightarrow> resolveTopPersonality (calculateScores as qm) as qm = None)
         \<and> (\<forall>d v t n s0 r s'. submitQuiz d v t n s0 = (Inr r, s') \<longrightarrow>
               (\<exists>w. topPersonality r = Some w
                  \<and> map_of (results s') t
                      = Some \<lparr>result_id = t, result_userId = v,
                              result_topPersonality = Some w, result_scores = response_scores r,
                              result_answers = answers d, result_createdAt = n\<rparr>))"
proof -
  let ?qm = "questionMapOf (questions s)"
  have sc: "calculateScores (answers dto) ?qm = []"
    using assms(4) by (rule no_scores_no_entries)
  have top: "resolveTopPersonality (calculateScores (answers dto) ?qm) (answers dto) ?qm = None"
    by (simp add: sc resolveTopPersonality_empty)
  have sub: "submitQuiz dto userId tok now s = (Inl undefinedTopPersonality, s)"
    using assms(5) assms(6) assms(7) assms(3) top by (rule submitQuiz_no_winner)
  have ctl: "QuizController_submitQuiz dto userId tok now s = (Inl undefinedTopPersonality, s)"
    by (simp add: QuizController_submitQuiz_def assms(2) sub)
  have emp: "\<forall>as qm. calculateScores as qm = []
      \<longrightarrow> resolveTopPersonality (calculateScores as qm) as qm = None"
    by (simp add: resolveTopPersonality_empty)
  from sc top sub ctl emp submitQuiz_Inr_winner show ?thesis by blast
qed

theorem empty_breakdown_no_winner_witness:
  "answers \<lparr>answers = oneAnswer\<rparr> \<noteq> []
   \<and> validationPipe \<lparr>answers = oneAnswer\<rparr> = Inr \<lparr>answers = oneAnswer\<rparr>
   \<and> validateAnswers oneAnswer (questionMapOf blankCatalog) = Inr ()
   \<and> calculateScores oneAnswer (questionMapOf blankCatalog) = []
   \<and> resolveTopPersonality (calculateScores oneAnswer (questionMapOf blankCatalog))
        oneAnswer (questionMapOf blankCatalog) = None
   \<and> QuizController_submitQuiz \<lparr>answers = oneAnswer\<rparr> ''u1'' ''t1'' 1 (freshState blankCatalog)
        = (Inl undefinedTopPersonality, freshState blankCatalog)"
proof -
  let ?dto = "\<lparr>answers = oneAnswer\<rparr>"
  let ?s = "freshState blankCatalog"
  have ne: "answers ?dto \<noteq> []" by (simp add: oneAnswer_def)
  have p: "validationPipe ?dto = Inr ?dto"
    by (simp add: validationPipe_def dtoConstraints_def answerConstraints_def oneAnswer_def
        mkAnswer_def enumerate_simps)
  have v: "validateAnswers (answers ?dto) (questionMapOf (questions ?s)) = Inr ()"
    by (simp add: validateAnswers_def freshState_def oneAnswer_def blankCatalog_def
        questionMapOf_def mkQuestion_def mkOption_def mkAnswer_def)
  have b: "\<forall>a\<in>set (answers ?dto). \<forall>q opt.
      selectedOption (questionMapOf (questions ?s)) a = Some (q, opt) \<longrightarrow> scores opt = []"
    by (simp add: selectedOption_def freshState_def oneAnswer_def blankCatalog_def
        questionMapOf_def mkQuestion_def mkOption_def mkAnswer_def)
  have u: "users ?s ''u1'' = Some (mkUser ''u1'' False)" by (simp add: freshState_def)
  have nc: "\<not> user_hasCompletedQuiz (mkUser ''u1'' False)" by (simp add: mkUser_def)
  have q: "questions ?s \<noteq> []" by (simp add: freshState_def blankCatalog_def)
  have qs: "questions ?s = blankCatalog" by (simp add: freshState_def)
  from empty_breakdown_no_winner[OF ne p v b u nc q, of "''t1''" 1] ne p v
  show ?thesis unfolding qs by auto
qed

text \<open>
  Claim C10 as stated fails at its own input: one question whose only option has an
  empty scoring map, answered by a user who has not submitted before. Validation
  succeeds, the breakdown is empty and there is no winner, but \<open>submitQuiz\<close> returns
  the store's error and the store still holds no result and no set flag.
\<close>

theorem submitQuiz_stores_no_winnerless_result:
  "validateAnswers oneAnswer (questionMapOf blankCatalog) = Inr ()
   \<and> calculateScores oneAnswer (questionMapOf blankCatalog) = []
   \<and> resolveTopPersonality [] oneAnswer (questionMapOf blankCatalog) = None
   \<and> submitQuiz \<lparr>answers = oneAnswer\<rparr> ''u1'' ''t1'' 1 (freshState blankCatalog)
        = (Inl undefinedTopPersonality, freshState blankCatalog)
   \<and> results (freshState blankCatalog) = []
   \<and> \<not> completed ''u1'' (freshState blankCatalog)"
proof -
  let ?qm = "questionMapOf blankCatalog"
  have v: "validateAnswers oneAnswer ?qm = Inr ()"
    by (simp add: validateAnswers_def oneAnswer_def blankCatalog_def
        questionMapOf_def mkQuestion_def mkOption_def mkAnswer_def)
  have sc: "calculateScores oneAnswer ?qm = []"
    by (simp add: calculateScores_def scoreAnswer_def oneAnswer_def blankCatalog_def
        questionMapOf_def mkQuestion_def mkOption_def mkAnswer_def)
  have top: "resolveTopPersonality [] oneAnswer ?qm = None"
    by (simp add: resolveTopPersonality_def)
  have ne: "blankCatalog \<noteq> []" by (simp add: blankCatalog_def)
  have sub: "submitQuiz \<lparr>answers = oneAnswer\<rparr> ''u1'' ''t1'' 1 (freshState blankCatalog)
      = (Inl undefinedTopPersonality, freshState blankCatalog)"
    by (rule submitQuiz_no_winner[where u = "mkUser ''u1'' False"])
      (simp_all add: freshState_def mkUser_def v sc top ne)
  have st: "results (freshState blankCatalog) = [] \<and> \<not> completed ''u1'' (freshState blankCatalog)"
    by (simp add: freshState_def completed_def mkUser_def)
  from v sc top sub st show ?thesis by simp
qed

end
